theory Spec2Isabelle
  imports Main "HOL-Library.Word" "HOL-Library.Sublist"
begin

section \<open>Go values used by the program\<close>

text \<open>
  A Go \<open>string\<close> is a sequence of bytes: \<open>string\<close> here, one \<open>char\<close> per byte.
  Go's \<open>int\<close> is the 64-bit two's complement integer of the platforms the tool is
  built for; \<open>int32\<close> is the type of the hunk fields of the diff library. Comparisons
  on them are signed (\<open>\<le>s\<close>), additions wrap.
\<close>

type_synonym go_int = "64 word"
type_synonym int32 = "32 word"

text \<open>A Go \<open>error\<close> value, identified with its message.\<close>

datatype error = Error string

definition nl :: char where
  "nl = CHR 0x0A"

text \<open>\<open>strings.Split(s, "\n")\<close>: the pieces between line feeds, at least one piece.\<close>

fun SplitLines :: "string \<Rightarrow> string list" where
  "SplitLines [] = [[]]"
| "SplitLines (c # cs) =
     (if c = nl then [] # SplitLines cs
      else (case SplitLines cs of [] \<Rightarrow> [[c]] | l # ls \<Rightarrow> (c # l) # ls))"

text \<open>\<open>strings.Join(elems, sep)\<close>.\<close>

fun Join :: "string list \<Rightarrow> string \<Rightarrow> string" where
  "Join [] sep = []"
| "Join [x] sep = x"
| "Join (x # y # ys) sep = x @ sep @ Join (y # ys) sep"

text \<open>
  \<open>strings.TrimSpace\<close> removes leading and trailing white space as \<open>unicode.IsSpace\<close>
  defines it. On the bytes of the string these are the UTF-8 encodings below: the six
  ASCII characters tab, line feed, vertical tab, form feed, carriage return and space,
  then U+0085, U+00A0, U+1680, U+2000 to U+200A, U+2028, U+2029, U+202F, U+205F and
  U+3000. A byte sequence that does not decode is the replacement rune, which is not
  white space, so trimming stops there.
\<close>

definition spaceRunes :: "string list" where
  "spaceRunes =
     [[CHR 0x09], [CHR 0x0A], [CHR 0x0B], [CHR 0x0C], [CHR 0x0D], [CHR 0x20],
      [CHR 0xC2, CHR 0x85], [CHR 0xC2, CHR 0xA0],
      [CHR 0xE1, CHR 0x9A, CHR 0x80],
      [CHR 0xE2, CHR 0x80, CHR 0x80], [CHR 0xE2, CHR 0x80, CHR 0x81],
      [CHR 0xE2, CHR 0x80, CHR 0x82], [CHR 0xE2, CHR 0x80, CHR 0x83],
      [CHR 0xE2, CHR 0x80, CHR 0x84], [CHR 0xE2, CHR 0x80, CHR 0x85],
      [CHR 0xE2, CHR 0x80, CHR 0x86], [CHR 0xE2, CHR 0x80, CHR 0x87],
      [CHR 0xE2, CHR 0x80, CHR 0x88], [CHR 0xE2, CHR 0x80, CHR 0x89],
      [CHR 0xE2, CHR 0x80, CHR 0x8A],
      [CHR 0xE2, CHR 0x80, CHR 0xA8], [CHR 0xE2, CHR 0x80, CHR 0xA9],
      [CHR 0xE2, CHR 0x80, CHR 0xAF], [CHR 0xE2, CHR 0x81, CHR 0x9F],
      [CHR 0xE3, CHR 0x80, CHR 0x80]]"

lemma spaceRunes_nonempty: "w \<in> set spaceRunes \<Longrightarrow> w \<noteq> []"
  by (auto simp: spaceRunes_def)

function trimLeftSpace :: "string \<Rightarrow> string" where
  "trimLeftSpace s =
     (case List.find (\<lambda>w. prefix w s) spaceRunes of
        None \<Rightarrow> s
      | Some w \<Rightarrow> trimLeftSpace (drop (length w) s))"
  by pat_completeness auto
termination
proof (relation "measure length")
  show "wf (measure length)" by simp
next
  fix s w
  assume "List.find (\<lambda>w. prefix w s) spaceRunes = Some w"
  then have "w \<in> set spaceRunes" and "prefix w s"
    by (auto simp: find_Some_iff)
  then have "w \<noteq> []" and "length w \<le> length s"
    by (auto simp: spaceRunes_nonempty prefix_length_le)
  then show "(drop (length w) s, s) \<in> measure length"
    by (cases w) auto
qed

function trimRightSpace :: "string \<Rightarrow> string" where
  "trimRightSpace s =
     (case List.find (\<lambda>w. suffix w s) spaceRunes of
        None \<Rightarrow> s
      | Some w \<Rightarrow> trimRightSpace (take (length s - length w) s))"
  by pat_completeness auto
termination
proof (relation "measure length")
  show "wf (measure length)" by simp
next
  fix s w
  assume "List.find (\<lambda>w. suffix w s) spaceRunes = Some w"
  then have "w \<in> set spaceRunes" and "suffix w s"
    by (auto simp: find_Some_iff)
  then have "w \<noteq> []" and "length w \<le> length s"
    by (auto simp: spaceRunes_nonempty suffix_length_le)
  then show "(take (length s - length w) s, s) \<in> measure length"
    by (cases w) auto
qed

declare trimLeftSpace.simps [simp del] trimRightSpace.simps [simp del]

definition TrimSpace :: "string \<Rightarrow> string" where
  "TrimSpace s = trimRightSpace (trimLeftSpace s)"

section \<open>Diff range model (internal/diff/parser.go)\<close>

record ModifiedLines =
  Added :: "go_int list"
  Deleted :: "go_int list"

text \<open>
  The hunks come from the diff library (\<open>diff.ParseMultiFileDiff\<close> of go-diff), which is
  not part of the repository: the parser is a parameter of the model, and \<open>Hunk\<close> and
  \<open>FileDiff\<close> have the fields of the library's structs that give a hunk's position and
  body (\<open>NewStartLine\<close>, \<open>OrigStartLine\<close>, \<open>NewLines\<close> and \<open>Body\<close> are the ones the
  program reads). An empty patch never reaches the parser.
\<close>

record Hunk =
  OrigStartLine :: int32
  OrigLines :: int32
  NewStartLine :: int32
  NewLines :: int32
  Body :: string

record FileDiff =
  Hunks :: "Hunk list"

type_synonym diff_parser = "string \<Rightarrow> error + FileDiff list"

text \<open>The header added in front of a patch that does not start with \<open>---\<close>.\<close>

definition withHeaders :: "string \<Rightarrow> string" where
  "withHeaders patch =
     (if \<not> prefix ''---'' patch
      then ''--- a/file'' @ [nl] @ ''+++ b/file'' @ [nl] @ patch
      else patch)"

text \<open>
  One turn of the loop over the lines of a hunk body in \<open>ParsePatch\<close>; the state is
  \<open>result\<close>, \<open>newLine\<close> and \<open>oldLine\<close>. An empty line is skipped (\<open>continue\<close>).
\<close>

fun parseLine :: "ModifiedLines \<times> go_int \<times> go_int \<Rightarrow> string \<Rightarrow> ModifiedLines \<times> go_int \<times> go_int" where
  "parseLine (result, newLine, oldLine) [] = (result, newLine, oldLine)"
| "parseLine (result, newLine, oldLine) (c # cs) =
     (if c = CHR ''+'' then (result\<lparr>Added := Added result @ [newLine]\<rparr>, newLine + 1, oldLine)
      else if c = CHR ''-'' then (result\<lparr>Deleted := Deleted result @ [oldLine]\<rparr>, newLine, oldLine + 1)
      else if c = CHR '' '' then (result, newLine + 1, oldLine + 1)
      else (result, newLine + 1, oldLine + 1))"

definition parseHunk :: "ModifiedLines \<Rightarrow> Hunk \<Rightarrow> ModifiedLines" where
  "parseHunk result hunk =
     fst (foldl parseLine (result, scast (NewStartLine hunk), scast (OrigStartLine hunk))
            (SplitLines (Hunk.Body hunk)))"

definition ParsePatch :: "diff_parser \<Rightarrow> string \<Rightarrow> error + ModifiedLines" where
  "ParsePatch ParseMultiFileDiff patch =
     (if patch = [] then Inr \<lparr>Added = [], Deleted = []\<rparr>
      else case ParseMultiFileDiff (withHeaders patch) of
             Inl err \<Rightarrow> Inl err
           | Inr fileDiffs \<Rightarrow>
               Inr (foldl (\<lambda>result fd. foldl parseHunk result (Hunks fd))
                      \<lparr>Added = [], Deleted = []\<rparr> fileDiffs))"

text \<open>\<open>HasModifiedLineInRange\<close>: the loop over \<open>m.Added\<close> returns at the first hit.\<close>

fun anyInRange :: "go_int list \<Rightarrow> go_int \<Rightarrow> go_int \<Rightarrow> bool" where
  "anyInRange [] startLine endLine = False"
| "anyInRange (line # rest) startLine endLine =
     (if startLine \<le>s line \<and> line \<le>s endLine then True
      else anyInRange rest startLine endLine)"

definition HasModifiedLineInRange :: "ModifiedLines \<Rightarrow> go_int \<Rightarrow> go_int \<Rightarrow> bool" where
  "HasModifiedLineInRange m startLine endLine = anyInRange (Added m) startLine endLine"

text \<open>
  One turn of the loop over the lines of an overlapping hunk in \<open>ExtractDiffForRange\<close>;
  the state is the string builder \<open>result\<close> and \<open>newLine\<close>.
\<close>

fun extractLine :: "go_int \<Rightarrow> go_int \<Rightarrow> string \<times> go_int \<Rightarrow> string \<Rightarrow> string \<times> go_int" where
  "extractLine startLine endLine (result, newLine) [] = (result, newLine)"
| "extractLine startLine endLine (result, newLine) (c # cs) =
     (let line = c # cs;
          inRange = (startLine \<le>s newLine \<and> newLine \<le>s endLine)
      in if c = CHR ''+'' then
           ((if inRange then result @ line @ [nl] else result), newLine + 1)
         else if c = CHR ''-'' then
           ((if inRange \<or> (startLine \<le>s newLine \<and> newLine \<le>s endLine + 1)
             then result @ line @ [nl] else result), newLine)
         else if c = CHR '' '' then (result, newLine + 1)
         else (result, newLine + 1))"

definition extractHunk :: "go_int \<Rightarrow> go_int \<Rightarrow> string \<Rightarrow> Hunk \<Rightarrow> string" where
  "extractHunk startLine endLine result hunk =
     (let hunkStart = scast (NewStartLine hunk);
          hunkEnd = hunkStart + scast (NewLines hunk) - 1
      in if startLine \<le>s hunkEnd \<and> hunkStart \<le>s endLine
         then fst (foldl (extractLine startLine endLine)
                     (result, scast (NewStartLine hunk)) (SplitLines (Hunk.Body hunk)))
         else result)"

definition ExtractDiffForRange :: "diff_parser \<Rightarrow> string \<Rightarrow> go_int \<Rightarrow> go_int \<Rightarrow> string" where
  "ExtractDiffForRange ParseMultiFileDiff patch startLine endLine =
     (if patch = [] then []
      else case ParseMultiFileDiff (withHeaders patch) of
             Inl err \<Rightarrow> []
           | Inr fileDiffs \<Rightarrow>
               TrimSpace (foldl (\<lambda>result fd. foldl (extractHunk startLine endLine) result (Hunks fd))
                            [] fileDiffs))"

text \<open>
  A call of a library function either returns or panics. Neither \<open>ParsePatch\<close> nor
  \<open>ExtractDiffForRange\<close> calls \<open>recover\<close>, and no other function of the
  repository does, so a panic of \<open>diff.ParseMultiFileDiff\<close> unwinds through them.
  \<open>ParsePatch_call\<close> and \<open>ExtractDiffForRange_call\<close> are the two functions again,
  with a library whose call may panic; when the library returns they are \<open>ParsePatch\<close>
  and \<open>ExtractDiffForRange\<close> (\<open>call_returns\<close> below).
\<close>

datatype 'a outcome = Panics | Returns 'a

type_synonym diff_library = "string \<Rightarrow> (error + FileDiff list) outcome"

definition ParsePatch_call :: "diff_library \<Rightarrow> string \<Rightarrow> (error + ModifiedLines) outcome" where
  "ParsePatch_call library patch =
     (if patch = [] then Returns (Inr \<lparr>Added = [], Deleted = []\<rparr>)
      else case library (withHeaders patch) of
             Panics \<Rightarrow> Panics
           | Returns (Inl err) \<Rightarrow> Returns (Inl err)
           | Returns (Inr fileDiffs) \<Rightarrow>
               Returns (Inr (foldl (\<lambda>result fd. foldl parseHunk result (Hunks fd))
                               \<lparr>Added = [], Deleted = []\<rparr> fileDiffs)))"

definition ExtractDiffForRange_call :: "diff_library \<Rightarrow> string \<Rightarrow> go_int \<Rightarrow> go_int \<Rightarrow> string outcome" where
  "ExtractDiffForRange_call library patch startLine endLine =
     (if patch = [] then Returns []
      else case library (withHeaders patch) of
             Panics \<Rightarrow> Panics
           | Returns (Inl err) \<Rightarrow> Returns []
           | Returns (Inr fileDiffs) \<Rightarrow>
               Returns (TrimSpace (foldl (\<lambda>result fd. foldl (extractHunk startLine endLine) result (Hunks fd))
                                     [] fileDiffs)))"


section \<open>Change correlator (internal/extractor)\<close>

record ModifiedFile =
  Path :: string
  OldPath :: string
  Status :: string
  Patch :: string
  RawContent :: string

record Function =
  Name :: string
  StartLine :: go_int
  EndLine :: go_int
  Content :: string

record ExtractedFunction =
  Name :: string
  StartLine :: go_int
  EndLine :: go_int
  Content :: string
  Diff :: string
  FilePath :: string
  Language :: string
  ChangeType :: string

text \<open>
  The collaborators of the extractor are outside the repository or behind it: the provider
  that fetches file content, the tree-sitter parser, the ignore patterns of the
  configuration and the diff library. They are the fields of \<open>Extractor\<close>:
  \<open>ShouldIgnore\<close> stands for \<open>e.config != nil && e.config.ShouldIgnore(path)\<close>,
  \<open>IsSupported\<close> for \<open>parser.IsSupported\<close>, \<open>GetFileContent\<close> for the provider's
  method, \<open>Parse\<close> for \<open>e.parser.Parse\<close> (functions and language name) and
  \<open>ParseMultiFileDiff\<close> for the diff library. Log output is not modelled.
\<close>

record Extractor =
  ShouldIgnore :: "string \<Rightarrow> bool"
  IsSupported :: "string \<Rightarrow> bool"
  GetFileContent :: "string \<Rightarrow> error + string"
  Parse :: "string \<Rightarrow> string \<Rightarrow> error + Function list \<times> string"
  ParseMultiFileDiff :: diff_parser

text \<open>
  \<open>fmt.Errorf(format + "%w", err)\<close>: the message of \<open>err\<close> behind a prefix.
\<close>

fun Errorf :: "string \<Rightarrow> error \<Rightarrow> error" where
  "Errorf format (Error msg) = Error (format @ msg)"

text \<open>
  The body of the loop over the parsed functions in \<open>extractFromFile\<close>.
\<close>

definition extractFunction ::
  "ModifiedFile \<Rightarrow> diff_parser \<Rightarrow> ModifiedLines \<Rightarrow> string \<Rightarrow> ExtractedFunction list \<Rightarrow> Function
     \<Rightarrow> ExtractedFunction list" where
  "extractFunction file parseDiff modifiedLines language result fn =
     (if HasModifiedLineInRange modifiedLines (Function.StartLine fn) (Function.EndLine fn)
      then
        let changeType = (if ModifiedFile.Status file = ''added'' then ''added'' else ''modified'');
            fnDiff = ExtractDiffForRange parseDiff (ModifiedFile.Patch file)
                       (Function.StartLine fn) (Function.EndLine fn)
        in result @ [\<lparr>Name = Function.Name fn,
                        StartLine = Function.StartLine fn,
                        EndLine = Function.EndLine fn,
                        Content = Function.Content fn,
                        Diff = fnDiff,
                        FilePath = ModifiedFile.Path file,
                        Language = language,
                        ChangeType = changeType\<rparr>]
      else result)"

definition extractFromFile :: "Extractor \<Rightarrow> ModifiedFile \<Rightarrow> error + ExtractedFunction list" where
  "extractFromFile e file =
     (case GetFileContent e (ModifiedFile.Path file) of
        Inl err \<Rightarrow> Inl (Errorf ''failed to get file content: '' err)
      | Inr content \<Rightarrow>
     (case ParsePatch (ParseMultiFileDiff e) (ModifiedFile.Patch file) of
        Inl err \<Rightarrow> Inl (Errorf ''failed to parse patch: '' err)
      | Inr modifiedLines \<Rightarrow>
     (case Parse e (ModifiedFile.Path file) content of
        Inl err \<Rightarrow> Inl (Errorf ''failed to parse file: '' err)
      | Inr (functions, language) \<Rightarrow>
          Inr (foldl (extractFunction file (ParseMultiFileDiff e) modifiedLines language)
                 [] functions))))"

text \<open>
  The body of the loop over the files in \<open>ExtractModifiedFunctions\<close>.
\<close>

definition extractFile :: "Extractor \<Rightarrow> ExtractedFunction list \<Rightarrow> ModifiedFile \<Rightarrow> ExtractedFunction list" where
  "extractFile e result file =
     (if ModifiedFile.Status file = ''deleted'' then result
      else if ShouldIgnore e (ModifiedFile.Path file) then result
      else if \<not> IsSupported e (ModifiedFile.Path file) then result
      else case extractFromFile e file of
             Inl err \<Rightarrow> result
           | Inr functions \<Rightarrow> result @ functions)"

definition ExtractModifiedFunctions :: "Extractor \<Rightarrow> ModifiedFile list \<Rightarrow> error + ExtractedFunction list" where
  "ExtractModifiedFunctions e files = Inr (foldl (extractFile e) [] files)"

section \<open>Fingerprint engine and review memory (internal/cache)\<close>

definition HashPrefix :: string where
  "HashPrefix = ''<!-- ainspector:fn:''"

definition HashSuffix :: string where
  "HashSuffix = '' -->''"

definition HashLength :: nat where
  "HashLength = 12"

text \<open>
  \<open>hex.EncodeToString\<close>: two lower-case hexadecimal digits for every byte, the high
  nibble first.
\<close>

definition hextable :: string where
  "hextable = ''0123456789abcdef''"

definition EncodeToString :: "string \<Rightarrow> string" where
  "EncodeToString src =
     concat (map (\<lambda>v. [hextable ! (of_char v div 16), hextable ! (of_char v mod 16)]) src)"

text \<open>
  \<open>FunctionHash\<close>. \<open>hashData\<close> is the string \<open>data\<close> of the source. The digest
  \<open>sha256.Sum256\<close> belongs to the standard library and is the parameter \<open>Sum256\<close>; it
  returns the 32 bytes of the digest.
\<close>

definition hashData :: "ExtractedFunction \<Rightarrow> string" where
  "hashData fn =
     FilePath fn @ '':'' @ ExtractedFunction.Name fn @ '':'' @ ExtractedFunction.Content fn
       @ '':'' @ Diff fn"

definition FunctionHash :: "(string \<Rightarrow> string) \<Rightarrow> ExtractedFunction \<Rightarrow> string" where
  "FunctionHash Sum256 fn =
     (let data = hashData fn;
          hash = Sum256 data
      in take HashLength (EncodeToString hash))"

definition FormatHashMarker :: "string \<Rightarrow> string" where
  "FormatHashMarker hash = HashPrefix @ hash @ HashSuffix"

text \<open>
  \<open>hashRegex\<close> is \<^verbatim>\<open><!-- ainspector:fn:([a-f0-9]{12}) -->\<close>: the literal text of
  \<open>HashPrefix\<close>, a group of twelve characters of the class \<open>[a-f0-9]\<close>, the literal
  text of \<open>HashSuffix\<close>. \<open>matchHere\<close> matches it at the head of a string and returns
  the whole match and the group, or nothing; \<open>FindStringSubmatch\<close> returns the leftmost
  match, trying every offset from the left. All characters of the pattern are ASCII, so
  matching on bytes is matching on runes.
\<close>

definition hexClass :: "char \<Rightarrow> bool" where
  "hexClass c = (c \<in> set ''abcdef0123456789'')"

definition matchHere :: "string \<Rightarrow> string list" where
  "matchHere s =
     (let group = take 12 (drop (length HashPrefix) s)
      in if prefix HashPrefix s \<and> length group = 12 \<and> list_all hexClass group
            \<and> prefix HashSuffix (drop (length HashPrefix + 12) s)
         then [HashPrefix @ group @ HashSuffix, group]
         else [])"

fun FindStringSubmatch :: "string \<Rightarrow> string list" where
  "FindStringSubmatch [] = matchHere []"
| "FindStringSubmatch (c # cs) =
     (case matchHere (c # cs) of
        [] \<Rightarrow> FindStringSubmatch cs
      | m # ms \<Rightarrow> m # ms)"

definition ExtractHash :: "string \<Rightarrow> string" where
  "ExtractHash commentBody =
     (let matches = FindStringSubmatch commentBody
      in if length matches < 2 then [] else matches ! 1)"

record ExistingComment =
  Path :: string
  Line :: go_int
  Body :: string

record ReviewedComment =
  Path :: string
  Line :: go_int
  Hash :: string
  Body :: string

text \<open>
  The tracker's \<open>map[string]bool\<close>; a missing key reads as \<open>false\<close>, and \<open>len\<close> of
  the map is the number of its keys.
\<close>

record Tracker =
  reviewed :: "string \<rightharpoonup> bool"

definition NewTracker :: Tracker where
  "NewTracker = \<lparr>reviewed = Map.empty\<rparr>"

definition loadComment :: "Tracker \<Rightarrow> ReviewedComment \<Rightarrow> Tracker" where
  "loadComment t c =
     (if Hash c \<noteq> [] then t\<lparr>reviewed := (reviewed t)(Hash c \<mapsto> True)\<rparr> else t)"

definition LoadFromComments :: "Tracker \<Rightarrow> ReviewedComment list \<Rightarrow> Tracker" where
  "LoadFromComments t comments = foldl loadComment t comments"

definition IsReviewed :: "(string \<Rightarrow> string) \<Rightarrow> Tracker \<Rightarrow> ExtractedFunction \<Rightarrow> bool" where
  "IsReviewed Sum256 t fn =
     (let hash = FunctionHash Sum256 fn
      in case reviewed t hash of None \<Rightarrow> False | Some b \<Rightarrow> b)"

definition FilterUnreviewed ::
  "(string \<Rightarrow> string) \<Rightarrow> Tracker \<Rightarrow> ExtractedFunction list \<Rightarrow> ExtractedFunction list" where
  "FilterUnreviewed Sum256 t functions =
     foldl (\<lambda>result fn. if \<not> IsReviewed Sum256 t fn then result @ [fn] else result) [] functions"

definition ReviewedCount :: "Tracker \<Rightarrow> nat" where
  "ReviewedCount t = card (dom (reviewed t))"

text \<open>
  The caller in \<open>runReview\<close> (cmd/root.go): every existing comment becomes a
  \<open>ReviewedComment\<close> whose \<open>Hash\<close> is \<open>ExtractHash\<close> of its body, and a new tracker
  loads them.
\<close>

definition reviewedCommentsOf :: "ExistingComment list \<Rightarrow> ReviewedComment list" where
  "reviewedCommentsOf existingComments =
     foldl (\<lambda>reviewedComments c.
              reviewedComments @
                [\<lparr>Path = ExistingComment.Path c, Line = ExistingComment.Line c,
                   Hash = ExtractHash (ExistingComment.Body c), Body = ExistingComment.Body c\<rparr>])
       [] existingComments"

definition trackerOfComments :: "ExistingComment list \<Rightarrow> Tracker" where
  "trackerOfComments existingComments =
     LoadFromComments NewTracker (reviewedCommentsOf existingComments)"

section \<open>What the specification says, as definitions\<close>

subsection \<open>Lines of a hunk and their numbers\<close>

text \<open>
  A body line is added when it starts with \<open>+\<close>, deleted when it starts with \<open>-\<close>.
  The new-line counter advances on every non-empty line that is not deleted, the old-line
  counter on every non-empty line that is not added.
\<close>

definition isAdded :: "string \<Rightarrow> bool" where
  "isAdded l = (l \<noteq> [] \<and> hd l = CHR ''+'')"

definition isDeleted :: "string \<Rightarrow> bool" where
  "isDeleted l = (l \<noteq> [] \<and> hd l = CHR ''-'')"

definition advancesNew :: "string \<Rightarrow> bool" where
  "advancesNew l = (l \<noteq> [] \<and> hd l \<noteq> CHR ''-'')"

definition advancesOld :: "string \<Rightarrow> bool" where
  "advancesOld l = (l \<noteq> [] \<and> hd l \<noteq> CHR ''+'')"

text \<open>
  The value of a counter when line \<open>i\<close> of the body is reached: its start plus the number
  of earlier lines that advance it. \<open>numbered\<close> pairs every line with that value.
\<close>

definition counterAt :: "(string \<Rightarrow> bool) \<Rightarrow> go_int \<Rightarrow> string list \<Rightarrow> nat \<Rightarrow> go_int" where
  "counterAt adv start ls i = start + of_nat (length (filter adv (take i ls)))"

definition numbered :: "(string \<Rightarrow> bool) \<Rightarrow> go_int \<Rightarrow> string list \<Rightarrow> (go_int \<times> string) list" where
  "numbered adv start ls = zip (map (counterAt adv start ls) [0..<length ls]) ls"

definition bodyLines :: "Hunk \<Rightarrow> string list" where
  "bodyLines h = SplitLines (Hunk.Body h)"

definition allHunks :: "FileDiff list \<Rightarrow> Hunk list" where
  "allHunks fds = concat (map Hunks fds)"

text \<open>
  The new-file numbers of the added lines and the old-file numbers of the deleted lines
  of a hunk.
\<close>

definition hunkAdded :: "Hunk \<Rightarrow> go_int list" where
  "hunkAdded h = map fst (filter (\<lambda>(n, l). isAdded l)
                    (numbered advancesNew (scast (NewStartLine h)) (bodyLines h)))"

definition hunkDeleted :: "Hunk \<Rightarrow> go_int list" where
  "hunkDeleted h = map fst (filter (\<lambda>(n, l). isDeleted l)
                    (numbered advancesOld (scast (OrigStartLine h)) (bodyLines h)))"

text \<open>
  Two inclusive ranges \<open>[a, b]\<close> and \<open>[c, d]\<close> overlap when neither ends before the
  other begins. For ranges that are not empty this says that they share a line
  (\<open>rangesOverlap_shared_line\<close> below).
\<close>

definition rangesOverlap :: "go_int \<Rightarrow> go_int \<Rightarrow> go_int \<Rightarrow> go_int \<Rightarrow> bool" where
  "rangesOverlap a b c d = (c \<le>s b \<and> a \<le>s d)"

text \<open>
  A numbered line is emitted for the range from \<open>s\<close> to \<open>e\<close>: an added line when its
  number lies in \<open>[s, e]\<close>, a deleted line when the counter lies in \<open>[s, e]\<close> or in
  \<open>[s, e + 1]\<close> (\<open>e + 1\<close> as the program computes it), no other line.
\<close>

definition emits :: "go_int \<Rightarrow> go_int \<Rightarrow> go_int \<times> string \<Rightarrow> bool" where
  "emits s e = (\<lambda>(p, l).
     (isAdded l \<and> s \<le>s p \<and> p \<le>s e)
     \<or> (isDeleted l \<and> ((s \<le>s p \<and> p \<le>s e) \<or> (s \<le>s p \<and> p \<le>s e + 1))))"

definition hunkEmitted :: "go_int \<Rightarrow> go_int \<Rightarrow> Hunk \<Rightarrow> string list" where
  "hunkEmitted s e h =
     (let hunkStart = scast (NewStartLine h)
      in if rangesOverlap hunkStart (hunkStart + scast (NewLines h) - 1) s e
         then map snd (filter (emits s e) (numbered advancesNew hunkStart (bodyLines h)))
         else [])"

text \<open>
  Every line followed by a line feed, as the string builder receives them.
\<close>

definition withNewlines :: "string list \<Rightarrow> string" where
  "withNewlines ls = concat (map (\<lambda>l. l @ [nl]) ls)"

subsection \<open>Change type, markers, reviewed set, fields of a fingerprint\<close>

definition changeTypeOf :: "ModifiedFile \<Rightarrow> string" where
  "changeTypeOf file = (if ModifiedFile.Status file = ''added'' then ''added'' else ''modified'')"

text \<open>
  A record that the correlator may emit for a file: the file is not deleted, the record
  carries the file's path and the change type of the file's status.
\<close>

definition emittedFor :: "ModifiedFile \<Rightarrow> ExtractedFunction \<Rightarrow> bool" where
  "emittedFor file fn =
     (ModifiedFile.Status file \<noteq> ''deleted''
      \<and> FilePath fn = ModifiedFile.Path file
      \<and> ChangeType fn = changeTypeOf file)"

text \<open>
  The marker of the 12-character lower-case hexadecimal string \<open>h\<close> occurs in
  \<open>body\<close> at offset \<open>i\<close>.
\<close>

definition markerAt :: "string \<Rightarrow> nat \<Rightarrow> string \<Rightarrow> bool" where
  "markerAt body i h =
     (length h = 12 \<and> list_all hexClass h
      \<and> take (length (FormatHashMarker h)) (drop i body) = FormatHashMarker h)"

text \<open>
  The non-empty \<open>Hash\<close> values of a list of comments.
\<close>

definition reviewedSet :: "ReviewedComment list \<Rightarrow> string set" where
  "reviewedSet comments = Hash ` {c \<in> set comments. Hash c \<noteq> []}"

text \<open>
  Two functions differ in exactly one of the four fields that enter the fingerprint.
\<close>

definition differInOneField :: "ExtractedFunction \<Rightarrow> ExtractedFunction \<Rightarrow> bool" where
  "differInOneField a b =
     ((FilePath a \<noteq> FilePath b \<and> ExtractedFunction.Name a = ExtractedFunction.Name b
         \<and> ExtractedFunction.Content a = ExtractedFunction.Content b \<and> Diff a = Diff b)
      \<or> (FilePath a = FilePath b \<and> ExtractedFunction.Name a \<noteq> ExtractedFunction.Name b
         \<and> ExtractedFunction.Content a = ExtractedFunction.Content b \<and> Diff a = Diff b)
      \<or> (FilePath a = FilePath b \<and> ExtractedFunction.Name a = ExtractedFunction.Name b
         \<and> ExtractedFunction.Content a \<noteq> ExtractedFunction.Content b \<and> Diff a = Diff b)
      \<or> (FilePath a = FilePath b \<and> ExtractedFunction.Name a = ExtractedFunction.Name b
         \<and> ExtractedFunction.Content a = ExtractedFunction.Content b \<and> Diff a \<noteq> Diff b))"

section \<open>Example data\<close>

text \<open>
  The patches of scenarios A and B and the hunks they denote (the body with the line feed
  that ends its last line), two functions that the separator \<open>:\<close> does not tell apart,
  the functions of the tracker's tests, and an extractor whose collaborators answer with
  fixed values. \<open>exampleDigest\<close> is an instance of the digest parameter for the
  examples only: the first 32 bytes of the zero-padded data.
\<close>

definition exampleBodyA :: string where
  "exampleBodyA = '' line1'' @ [nl] @ ''+added1'' @ [nl] @ ''+added2'' @ [nl] @ '' line2'' @ [nl] @ '' line3''"

definition examplePatchA :: string where
  "examplePatchA = ''@@ -1,3 +1,5 @@'' @ [nl] @ exampleBodyA"

definition exampleHunkA :: Hunk where
  "exampleHunkA = \<lparr>OrigStartLine = 1, OrigLines = 3, NewStartLine = 1, NewLines = 5,
                     Hunk.Body = exampleBodyA @ [nl]\<rparr>"

definition exampleBodyB :: string where
  "exampleBodyB = '' line1'' @ [nl] @ ''-old_line'' @ [nl] @ ''+new_line'' @ [nl] @ '' line3'' @ [nl] @ '' line4''"

definition examplePatchB :: string where
  "examplePatchB = ''@@ -1,4 +1,4 @@'' @ [nl] @ exampleBodyB"

definition exampleHunkB :: Hunk where
  "exampleHunkB = \<lparr>OrigStartLine = 1, OrigLines = 4, NewStartLine = 1, NewLines = 4,
                     Hunk.Body = exampleBodyB @ [nl]\<rparr>"

definition ambiguousA :: ExtractedFunction where
  "ambiguousA = \<lparr>Name = ''f'', StartLine = 1, EndLine = 3, Content = ''a:b'', Diff = ''+x'',
                  FilePath = ''main.go'', Language = ''go'', ChangeType = ''modified''\<rparr>"

definition ambiguousB :: ExtractedFunction where
  "ambiguousB = \<lparr>Name = ''f:a'', StartLine = 1, EndLine = 3, Content = ''b'', Diff = ''+x'',
                  FilePath = ''main.go'', Language = ''go'', ChangeType = ''modified''\<rparr>"

definition exampleDigest :: "string \<Rightarrow> string" where
  "exampleDigest data = take 32 (data @ replicate 32 (CHR 0x00))"

definition exampleFn1 :: ExtractedFunction where
  "exampleFn1 = \<lparr>Name = ''Func1'', StartLine = 1, EndLine = 1, Content = ''func Func1() {}'',
                  Diff = ''+func Func1() {}'', FilePath = ''main.go'', Language = ''go'',
                  ChangeType = ''added''\<rparr>"

definition exampleFn2 :: ExtractedFunction where
  "exampleFn2 = \<lparr>Name = ''Func2'', StartLine = 3, EndLine = 3, Content = ''func Func2() {}'',
                  Diff = ''+func Func2() {}'', FilePath = ''b.go'', Language = ''go'',
                  ChangeType = ''added''\<rparr>"

definition exampleReviewed :: "ReviewedComment list" where
  "exampleReviewed =
     [\<lparr>Path = ''main.go'', Line = 10, Hash = FunctionHash exampleDigest exampleFn1,
        Body = ''Review 1''\<rparr>,
      \<lparr>Path = ''main.go'', Line = 20, Hash = ''not a hash'', Body = ''Review 2''\<rparr>,
      \<lparr>Path = ''other.go'', Line = 5, Hash = [], Body = ''Comment without hash''\<rparr>]"

definition exampleParser :: diff_parser where
  "exampleParser p = Inr [\<lparr>Hunks = [exampleHunkA]\<rparr>]"

definition exampleExtractor :: Extractor where
  "exampleExtractor =
     \<lparr>ShouldIgnore = (\<lambda>path. False),
      IsSupported = (\<lambda>path. True),
      GetFileContent = (\<lambda>path. Inr ''func Func1() {}''),
      Parse = (\<lambda>path content.
                 Inr ([\<lparr>Function.Name = ''Func1'', StartLine = 1, EndLine = 5, Content = content\<rparr>], ''go'')),
      ParseMultiFileDiff = exampleParser\<rparr>"

definition exampleAddedFile :: ModifiedFile where
  "exampleAddedFile =
     \<lparr>ModifiedFile.Path = ''main.go'', OldPath = [], Status = ''added'', Patch = examplePatchA, RawContent = []\<rparr>"

definition exampleDeletedFile :: ModifiedFile where
  "exampleDeletedFile =
     \<lparr>ModifiedFile.Path = ''old.go'', OldPath = [], Status = ''deleted'', Patch = examplePatchA, RawContent = []\<rparr>"

definition exampleExtracted :: ExtractedFunction where
  "exampleExtracted =
     \<lparr>Name = ''Func1'', StartLine = 1, EndLine = 5, Content = ''func Func1() {}'',
      Diff = ''+added1'' @ [nl] @ ''+added2'', FilePath = ''main.go'', Language = ''go'',
      ChangeType = ''added''\<rparr>"

definition exampleExisting :: "ExistingComment list" where
  "exampleExisting =
     [\<lparr>ExistingComment.Path = ''main.go'', Line = 10,
        Body = ''Some review comment '' @ FormatHashMarker ''abc123def456''\<rparr>,
      \<lparr>ExistingComment.Path = ''main.go'', Line = 20, Body = ''Just a regular comment''\<rparr>]"


section \<open>Range query\<close>

lemma anyInRange_iff:
  "anyInRange xs s e \<longleftrightarrow> (\<exists>x \<in> set xs. s \<le>s x \<and> x \<le>s e)"
  by (induction xs) auto

text \<open>
  C4. \<open>HasModifiedLineInRange\<close> is true exactly when some entry of \<open>Added\<close> lies in the
  inclusive range from \<open>start\<close> to \<open>end\<close>; an entry equal to \<open>start\<close> or to \<open>end\<close>
  matches (when the range is not empty); \<open>Deleted\<close> has no influence, so with an empty
  \<open>Added\<close> the answer is false whatever \<open>Deleted\<close> holds.
\<close>

theorem HasModifiedLineInRange_iff:
  "(HasModifiedLineInRange m s e \<longleftrightarrow> (\<exists>x \<in> set (Added m). s \<le>s x \<and> x \<le>s e))
   \<and> (s \<le>s e \<and> (s \<in> set (Added m) \<or> e \<in> set (Added m)) \<longrightarrow> HasModifiedLineInRange m s e)
   \<and> HasModifiedLineInRange m s e = HasModifiedLineInRange (m\<lparr>Deleted := ds\<rparr>) s e
   \<and> (Added m = [] \<longrightarrow> \<not> HasModifiedLineInRange m s e)"
  by (auto simp: HasModifiedLineInRange_def anyInRange_iff)

theorem HasModifiedLineInRange_iff_witness:
  "HasModifiedLineInRange \<lparr>Added = [5], Deleted = [7]\<rparr> 5 10
   \<and> HasModifiedLineInRange \<lparr>Added = [10], Deleted = []\<rparr> 5 10
   \<and> \<not> HasModifiedLineInRange \<lparr>Added = [], Deleted = [7]\<rparr> 5 10"
  using HasModifiedLineInRange_iff [of "\<lparr>Added = [5], Deleted = [7]\<rparr>" 5 10 "[]"]
        HasModifiedLineInRange_iff [of "\<lparr>Added = [10], Deleted = []\<rparr>" 5 10 "[]"]
        HasModifiedLineInRange_iff [of "\<lparr>Added = [], Deleted = [7]\<rparr>" 5 10 "[]"]
  by simp

section \<open>Parsing a patch\<close>

lemma counterAt_0: "counterAt adv n ls 0 = n"
  by (simp add: counterAt_def)

lemma counterAt_Suc:
  "counterAt adv n (l # ls) (Suc i) = counterAt adv (if adv l then n + 1 else n) ls i"
  by (simp add: counterAt_def)

lemma numbered_Nil: "numbered adv n [] = []"
  by (simp add: numbered_def)

lemma numbered_Cons:
  "numbered adv n (l # ls) = (n, l) # numbered adv (if adv l then n + 1 else n) ls"
proof -
  have "[0..<length (l # ls)] = 0 # map Suc [0..<length ls]"
    by (simp add: upt_conv_Cons map_Suc_upt del: upt_Suc)
  then show ?thesis
    by (simp add: numbered_def counterAt_0 counterAt_Suc comp_def del: upt_Suc)
qed

lemma length_numbered: "length (numbered adv n ls) = length ls"
  by (simp add: numbered_def)

lemma map_snd_numbered: "map snd (numbered adv n ls) = ls"
  by (simp add: numbered_def)

text \<open>
  The loop over the lines of a body computes the numbered lines.
\<close>

lemma foldl_parseLine:
  "foldl parseLine (res, n, m) ls =
     (res\<lparr>Added := Added res @ map fst (filter (\<lambda>(k, l). isAdded l) (numbered advancesNew n ls)),
          Deleted := Deleted res @ map fst (filter (\<lambda>(k, l). isDeleted l) (numbered advancesOld m ls))\<rparr>,
      n + of_nat (length (filter advancesNew ls)),
      m + of_nat (length (filter advancesOld ls)))"
proof (induction ls arbitrary: res n m)
  case Nil
  then show ?case by (simp add: numbered_Nil)
next
  case (Cons l ls)
  show ?case
  proof (cases l)
    case Nil
    then show ?thesis
      by (simp add: Cons.IH numbered_Cons isAdded_def isDeleted_def advancesNew_def advancesOld_def)
  next
    case (Cons c cs)
    then show ?thesis
      by (simp add: Cons.IH numbered_Cons isAdded_def isDeleted_def advancesNew_def advancesOld_def)
  qed
qed

lemma parseHunk_eq:
  "parseHunk res h = res\<lparr>Added := Added res @ hunkAdded h, Deleted := Deleted res @ hunkDeleted h\<rparr>"
  by (simp add: parseHunk_def foldl_parseLine hunkAdded_def hunkDeleted_def bodyLines_def)

lemma foldl_parseHunk:
  "foldl parseHunk res hs =
     res\<lparr>Added := Added res @ concat (map hunkAdded hs),
         Deleted := Deleted res @ concat (map hunkDeleted hs)\<rparr>"
  by (induction hs arbitrary: res) (simp_all add: parseHunk_eq)

lemma foldl_fileDiffs:
  "foldl (\<lambda>result fd. foldl parseHunk result (Hunks fd)) res fds =
     res\<lparr>Added := Added res @ concat (map hunkAdded (allHunks fds)),
         Deleted := Deleted res @ concat (map hunkDeleted (allHunks fds))\<rparr>"
  by (induction fds arbitrary: res) (simp_all add: foldl_parseHunk allHunks_def)

lemma length_filter_snd:
  "length (filter (\<lambda>(n, l). P l) xs) = length (filter P (map snd xs))"
  by (induction xs) auto

lemma length_hunkAdded: "length (hunkAdded h) = length (filter isAdded (bodyLines h))"
  by (simp add: hunkAdded_def length_filter_snd map_snd_numbered)

lemma length_hunkDeleted: "length (hunkDeleted h) = length (filter isDeleted (bodyLines h))"
  by (simp add: hunkDeleted_def length_filter_snd map_snd_numbered)

lemma length_concat_hunkAdded:
  "length (concat (map hunkAdded hs)) = length (filter isAdded (concat (map bodyLines hs)))"
  by (induction hs) (simp_all add: length_hunkAdded)

lemma length_concat_hunkDeleted:
  "length (concat (map hunkDeleted hs)) = length (filter isDeleted (concat (map bodyLines hs)))"
  by (induction hs) (simp_all add: length_hunkDeleted)

lemma examplePatch_nonempty: "examplePatchA \<noteq> []" "examplePatchB \<noteq> []"
  by (simp_all add: examplePatchA_def examplePatchB_def)

lemma exampleA_lines:
  assumes "NewStartLine h = 1"
    and "Hunk.Body h = exampleBodyA \<or> Hunk.Body h = exampleBodyA @ [nl]"
  shows "hunkAdded h = [2, 3]" and "hunkDeleted h = []"
  using assms
  by (auto simp: hunkAdded_def hunkDeleted_def bodyLines_def exampleBodyA_def numbered_Cons numbered_Nil
        isAdded_def isDeleted_def advancesNew_def advancesOld_def nl_def)

lemma exampleA_parsed:
  "ParsePatch exampleParser examplePatchA = Inr \<lparr>Added = [2, 3], Deleted = []\<rparr>"
proof -
  have "hunkAdded exampleHunkA = [2, 3]" and "hunkDeleted exampleHunkA = []"
    by (rule exampleA_lines; simp add: exampleHunkA_def)+
  then show ?thesis
    by (simp add: ParsePatch_def exampleParser_def foldl_fileDiffs allHunks_def examplePatch_nonempty)
qed

text \<open>
  C3. For a non-empty patch that the diff library parses into file diffs, \<open>ParsePatch\<close>
  goes through the hunks in the order met, with the two counters starting at every hunk's
  declared new and old start: \<open>Added\<close> holds, hunk after hunk, the new-line counter at
  every body line that starts with \<open>+\<close>, \<open>Deleted\<close> the old-line counter at every body
  line that starts with \<open>-\<close>; a \<open>+\<close> line advances only the new counter, a \<open>-\<close> line
  only the old one, every other non-empty line both. So \<open>Added\<close> has as many entries as
  the bodies have \<open>+\<close> lines and \<open>Deleted\<close> as many as they have \<open>-\<close> lines. For the
  patch of scenario A, one hunk with new start 1 whose body is the text after the header
  (with or without a final line feed), \<open>Added\<close> is \<open>[2, 3]\<close> and \<open>Deleted\<close> is empty.
\<close>

theorem ParsePatch_lines:
  "(patch \<noteq> [] \<and> parse (withHeaders patch) = Inr fds \<longrightarrow>
      ParsePatch parse patch =
        Inr \<lparr>Added = concat (map hunkAdded (allHunks fds)),
             Deleted = concat (map hunkDeleted (allHunks fds))\<rparr>
      \<and> length (concat (map hunkAdded (allHunks fds))) =
          length (filter isAdded (concat (map bodyLines (allHunks fds))))
      \<and> length (concat (map hunkDeleted (allHunks fds))) =
          length (filter isDeleted (concat (map bodyLines (allHunks fds)))))
   \<and> (parse (withHeaders examplePatchA) = Inr [\<lparr>Hunks = [h]\<rparr>]
        \<and> NewStartLine h = 1
        \<and> (Hunk.Body h = exampleBodyA \<or> Hunk.Body h = exampleBodyA @ [nl]) \<longrightarrow>
      ParsePatch parse examplePatchA = Inr \<lparr>Added = [2, 3], Deleted = []\<rparr>)"
proof (intro conjI impI)
  assume "patch \<noteq> [] \<and> parse (withHeaders patch) = Inr fds"
  then show "ParsePatch parse patch =
        Inr \<lparr>Added = concat (map hunkAdded (allHunks fds)),
             Deleted = concat (map hunkDeleted (allHunks fds))\<rparr>"
    by (simp add: ParsePatch_def foldl_fileDiffs)
next
  show "length (concat (map hunkAdded (allHunks fds))) =
          length (filter isAdded (concat (map bodyLines (allHunks fds))))"
    by (rule length_concat_hunkAdded)
next
  show "length (concat (map hunkDeleted (allHunks fds))) =
          length (filter isDeleted (concat (map bodyLines (allHunks fds))))"
    by (rule length_concat_hunkDeleted)
next
  assume a: "parse (withHeaders examplePatchA) = Inr [\<lparr>Hunks = [h]\<rparr>]
        \<and> NewStartLine h = 1
        \<and> (Hunk.Body h = exampleBodyA \<or> Hunk.Body h = exampleBodyA @ [nl])"
  then have "hunkAdded h = [2, 3]" and "hunkDeleted h = []"
    by (simp_all add: exampleA_lines)
  with a show "ParsePatch parse examplePatchA = Inr \<lparr>Added = [2, 3], Deleted = []\<rparr>"
    by (simp add: ParsePatch_def foldl_fileDiffs allHunks_def examplePatch_nonempty)
qed

theorem ParsePatch_lines_witness:
  "examplePatchA \<noteq> []
   \<and> ParsePatch (\<lambda>p. Inr [\<lparr>Hunks = [exampleHunkA]\<rparr>]) examplePatchA =
       Inr \<lparr>Added = [2, 3], Deleted = []\<rparr>
   \<and> length (filter isAdded (bodyLines exampleHunkA)) = 2
   \<and> length (filter isDeleted (bodyLines exampleHunkA)) = 0"
proof -
  let ?parse = "\<lambda>p::string. (Inr [\<lparr>Hunks = [exampleHunkA]\<rparr>] :: error + FileDiff list)"
  note T = ParsePatch_lines [of examplePatchA ?parse "[\<lparr>Hunks = [exampleHunkA]\<rparr>]" exampleHunkA]
  have ne: "examplePatchA \<noteq> []"
    by (simp add: examplePatchA_def)
  have fields: "NewStartLine exampleHunkA = 1
      \<and> (Hunk.Body exampleHunkA = exampleBodyA \<or> Hunk.Body exampleHunkA = exampleBodyA @ [nl])"
    by (simp add: exampleHunkA_def)
  from T fields have 1: "ParsePatch ?parse examplePatchA = Inr \<lparr>Added = [2, 3], Deleted = []\<rparr>"
    by blast
  from T ne have "ParsePatch ?parse examplePatchA =
        Inr \<lparr>Added = concat (map hunkAdded (allHunks [\<lparr>Hunks = [exampleHunkA]\<rparr>])),
             Deleted = concat (map hunkDeleted (allHunks [\<lparr>Hunks = [exampleHunkA]\<rparr>]))\<rparr>
      \<and> length (concat (map hunkAdded (allHunks [\<lparr>Hunks = [exampleHunkA]\<rparr>]))) =
          length (filter isAdded (concat (map bodyLines (allHunks [\<lparr>Hunks = [exampleHunkA]\<rparr>]))))
      \<and> length (concat (map hunkDeleted (allHunks [\<lparr>Hunks = [exampleHunkA]\<rparr>]))) =
          length (filter isDeleted (concat (map bodyLines (allHunks [\<lparr>Hunks = [exampleHunkA]\<rparr>]))))"
    by blast
  with 1 have "length (filter isAdded (bodyLines exampleHunkA)) = 2
      \<and> length (filter isDeleted (bodyLines exampleHunkA)) = 0"
    by (simp add: allHunks_def)
  with ne 1 show ?thesis by blast
qed

section \<open>Extracting the diff of a range\<close>

lemma rangesOverlap_shared_line:
  assumes "a \<le>s b" and "c \<le>s d"
  shows "rangesOverlap a b c d \<longleftrightarrow> (\<exists>x. a \<le>s x \<and> x \<le>s b \<and> c \<le>s x \<and> x \<le>s d)"
proof
  assume "rangesOverlap a b c d"
  then have cb: "c \<le>s b" and ad: "a \<le>s d" by (simp_all add: rangesOverlap_def)
  show "\<exists>x. a \<le>s x \<and> x \<le>s b \<and> c \<le>s x \<and> x \<le>s d"
  proof (cases "a \<le>s c")
    case True
    with assms cb show ?thesis by (intro exI [of _ c]) simp
  next
    case False
    then have "c \<le>s a" using signed.linear by blast
    with assms ad show ?thesis by (intro exI [of _ a]) simp
  qed
next
  assume "\<exists>x. a \<le>s x \<and> x \<le>s b \<and> c \<le>s x \<and> x \<le>s d"
  then show "rangesOverlap a b c d"
    unfolding rangesOverlap_def using signed.order_trans by blast
qed

lemma withNewlines_append: "withNewlines (xs @ ys) = withNewlines xs @ withNewlines ys"
  by (simp add: withNewlines_def)

lemma foldl_extractLine:
  "foldl (extractLine s e) (res, n) ls =
     (res @ withNewlines (map snd (filter (emits s e) (numbered advancesNew n ls))),
      n + of_nat (length (filter advancesNew ls)))"
proof (induction ls arbitrary: res n)
  case Nil
  then show ?case by (simp add: numbered_Nil withNewlines_def)
next
  case (Cons l ls)
  show ?case
  proof (cases l)
    case Nil
    then show ?thesis
      by (simp add: Cons.IH numbered_Cons emits_def isAdded_def isDeleted_def advancesNew_def)
  next
    case (Cons c cs)
    then show ?thesis
      by (simp add: Cons.IH numbered_Cons emits_def isAdded_def isDeleted_def advancesNew_def
            withNewlines_def Let_def)
  qed
qed

lemma extractHunk_eq:
  "extractHunk s e res h = res @ withNewlines (hunkEmitted s e h)"
proof (cases "rangesOverlap (scast (NewStartLine h)) (scast (NewStartLine h) + scast (NewLines h) - 1) s e")
  case True
  then have "s \<le>s scast (NewStartLine h) + scast (NewLines h) - 1 \<and> scast (NewStartLine h) \<le>s e"
    by (simp add: rangesOverlap_def)
  with True show ?thesis
    by (simp add: extractHunk_def hunkEmitted_def foldl_extractLine Let_def bodyLines_def)
next
  case False
  then have "\<not> (s \<le>s scast (NewStartLine h) + scast (NewLines h) - 1 \<and> scast (NewStartLine h) \<le>s e)"
    by (simp add: rangesOverlap_def)
  with False show ?thesis
    by (simp add: extractHunk_def hunkEmitted_def Let_def withNewlines_def del: de_Morgan_conj)
qed

lemma foldl_extractHunk:
  "foldl (extractHunk s e) res hs = res @ withNewlines (concat (map (hunkEmitted s e) hs))"
  by (induction hs arbitrary: res) (simp_all add: extractHunk_eq withNewlines_def)

lemma foldl_extract_fileDiffs:
  "foldl (\<lambda>result fd. foldl (extractHunk s e) result (Hunks fd)) res fds =
     res @ withNewlines (concat (map (hunkEmitted s e) (allHunks fds)))"
  by (induction fds arbitrary: res) (simp_all add: foldl_extractHunk allHunks_def withNewlines_def)

lemma withNewlines_Join:
  "withNewlines ls = (if ls = [] then [] else Join ls [nl] @ [nl])"
  by (induction ls "[nl]" rule: Join.induct) (simp_all add: withNewlines_def)

text \<open>
  Trimming forgets a final line feed, so the lines written with a line feed each are, once
  trimmed, the lines joined by line feeds.
\<close>

lemma spaceRunes_not_snoc_nl: "w \<in> set spaceRunes \<Longrightarrow> x \<noteq> [] \<Longrightarrow> w \<noteq> x @ [nl]"
  by (auto simp: spaceRunes_def nl_def Cons_eq_append_conv)

lemma find_prefix_snoc_nl:
  assumes "x \<noteq> []"
  shows "List.find (\<lambda>w. prefix w (x @ [nl])) spaceRunes = List.find (\<lambda>w. prefix w x) spaceRunes"
  using assms by (intro find_cong) (auto dest: spaceRunes_not_snoc_nl)

lemma find_suffix_snoc_nl:
  "List.find (\<lambda>w. suffix w (x @ [nl])) spaceRunes = Some [nl]"
  by (simp add: spaceRunes_def nl_def suffix_Cons)

lemma trimRightSpace_snoc_nl: "trimRightSpace (x @ [nl]) = trimRightSpace x"
  by (subst trimRightSpace.simps) (simp only: find_suffix_snoc_nl, simp)

lemma trimLeftSpace_Nil: "trimLeftSpace [] = []"
  by (subst trimLeftSpace.simps) (simp add: spaceRunes_def)

lemma trimLeftSpace_nl: "trimLeftSpace [nl] = []"
  by (subst trimLeftSpace.simps) (simp add: spaceRunes_def nl_def trimLeftSpace_Nil)

lemma trimLeftSpace_snoc_nl:
  "trimLeftSpace (x @ [nl]) = (if trimLeftSpace x = [] then [] else trimLeftSpace x @ [nl])"
proof (induction x rule: trimLeftSpace.induct)
  case (1 s)
  show ?case
  proof (cases "s = []")
    case True
    then show ?thesis by (simp add: trimLeftSpace_Nil trimLeftSpace_nl)
  next
    case False
    note f = find_prefix_snoc_nl [OF False]
    show ?thesis
    proof (cases "List.find (\<lambda>w. prefix w s) spaceRunes")
      case None
      then have "trimLeftSpace s = s" and "trimLeftSpace (s @ [nl]) = s @ [nl]"
        using f by (simp_all add: trimLeftSpace.simps [of s] trimLeftSpace.simps [of "s @ [nl]"])
      with False show ?thesis by simp
    next
      case (Some w)
      then have "prefix w s" by (auto simp: find_Some_iff)
      then have len: "length w \<le> length s" by (rule prefix_length_le)
      have "trimLeftSpace s = trimLeftSpace (drop (length w) s)"
        using Some by (simp add: trimLeftSpace.simps [of s])
      moreover have "trimLeftSpace (s @ [nl]) = trimLeftSpace (drop (length w) s @ [nl])"
        using Some f len by (simp add: trimLeftSpace.simps [of "s @ [nl]"])
      ultimately show ?thesis using "1.IH" [OF Some] by simp
    qed
  qed
qed

lemma TrimSpace_snoc_nl: "TrimSpace (x @ [nl]) = TrimSpace x"
  by (simp add: TrimSpace_def trimLeftSpace_snoc_nl trimRightSpace_snoc_nl)

lemma TrimSpace_withNewlines: "TrimSpace (withNewlines ls) = TrimSpace (Join ls [nl])"
  by (simp add: withNewlines_Join TrimSpace_snoc_nl)


lemma ExtractDiffForRange_parsed:
  assumes "patch \<noteq> []" and "parse (withHeaders patch) = Inr fds"
  shows "ExtractDiffForRange parse patch s e =
           TrimSpace (Join (concat (map (hunkEmitted s e) (allHunks fds))) [nl])"
  using assms
  by (simp add: ExtractDiffForRange_def foldl_extract_fileDiffs TrimSpace_withNewlines)

lemma exampleB_emitted:
  assumes "NewStartLine h = 1" and "NewLines h = 4"
    and "Hunk.Body h = exampleBodyB \<or> Hunk.Body h = exampleBodyB @ [nl]"
  shows "hunkEmitted 2 2 h = [''-old_line'', ''+new_line'']"
  using assms
  by (auto simp: hunkEmitted_def bodyLines_def exampleBodyB_def numbered_Cons numbered_Nil
        emits_def rangesOverlap_def isAdded_def isDeleted_def advancesNew_def nl_def word_sle_eq)

lemma exampleB_trim: "TrimSpace (Join [''-old_line'', ''+new_line''] [nl]) = ''-old_line'' @ [nl] @ ''+new_line''"
  by code_simp

lemma exampleA_emitted: "hunkEmitted 1 5 exampleHunkA = [''+added1'', ''+added2'']"
  by (simp add: hunkEmitted_def bodyLines_def exampleHunkA_def exampleBodyA_def numbered_Cons
        numbered_Nil emits_def rangesOverlap_def isAdded_def isDeleted_def advancesNew_def nl_def
        word_sle_eq)

lemma exampleA_trim:
  "TrimSpace (Join [''+added1'', ''+added2''] [nl]) = ''+added1'' @ [nl] @ ''+added2''"
  by code_simp

lemma exampleA_diff:
  "ExtractDiffForRange exampleParser examplePatchA 1 5 = ''+added1'' @ [nl] @ ''+added2''"
proof -
  have "ExtractDiffForRange exampleParser examplePatchA 1 5 =
      TrimSpace (Join (concat (map (hunkEmitted 1 5) (allHunks [\<lparr>Hunks = [exampleHunkA]\<rparr>]))) [nl])"
    by (intro ExtractDiffForRange_parsed examplePatch_nonempty) (simp add: exampleParser_def)
  then have "ExtractDiffForRange exampleParser examplePatchA 1 5 =
      TrimSpace (Join [''+added1'', ''+added2''] [nl])"
    by (simp only: allHunks_def FileDiff.simps list.map concat.simps append_Nil2 exampleA_emitted)
  then show ?thesis by (simp only: exampleA_trim)
qed

text \<open>
  C1. For a non-empty patch that the diff library parses into file diffs and every range
  from \<open>s\<close> to \<open>e\<close>, \<open>ExtractDiffForRange\<close> returns the emitted lines of all hunks, in
  order, joined by line feeds, with white space trimmed at both ends. A hunk whose new-file
  span, from its new start to new start + new count - 1, does not overlap the range emits
  nothing. In an overlapping hunk, with the new-line counter starting at the hunk's declared
  new start, a \<open>+\<close> line is emitted exactly when the counter lies in \<open>[s, e]\<close>, a \<open>-\<close>
  line exactly when the counter lies in \<open>[s, e]\<close> or in \<open>[s, e + 1]\<close>, and a context line
  never (\<open>hunkEmitted\<close>, \<open>emits\<close>). For the patch of scenario B, one hunk with new
  start 1 and new count 4 whose body is the text after the header (with or without a final
  line feed), and the range \<open>(2, 2)\<close>, the result is \<open>-old_line\<close>, a line feed,
  \<open>+new_line\<close>.
\<close>

theorem ExtractDiffForRange_emits:
  "(patch \<noteq> [] \<and> parse (withHeaders patch) = Inr fds \<longrightarrow>
      ExtractDiffForRange parse patch s e =
        TrimSpace (Join (concat (map (hunkEmitted s e) (allHunks fds))) [nl]))
   \<and> (parse (withHeaders examplePatchB) = Inr [\<lparr>Hunks = [h]\<rparr>]
        \<and> NewStartLine h = 1 \<and> NewLines h = 4
        \<and> (Hunk.Body h = exampleBodyB \<or> Hunk.Body h = exampleBodyB @ [nl]) \<longrightarrow>
      ExtractDiffForRange parse examplePatchB 2 2 = ''-old_line'' @ [nl] @ ''+new_line'')"
proof (intro conjI impI)
  assume "patch \<noteq> [] \<and> parse (withHeaders patch) = Inr fds"
  then show "ExtractDiffForRange parse patch s e =
        TrimSpace (Join (concat (map (hunkEmitted s e) (allHunks fds))) [nl])"
    by (simp add: ExtractDiffForRange_parsed)
next
  assume a: "parse (withHeaders examplePatchB) = Inr [\<lparr>Hunks = [h]\<rparr>]
        \<and> NewStartLine h = 1 \<and> NewLines h = 4
        \<and> (Hunk.Body h = exampleBodyB \<or> Hunk.Body h = exampleBodyB @ [nl])"
  then have "hunkEmitted 2 2 h = [''-old_line'', ''+new_line'']"
    by (intro exampleB_emitted) simp_all
  moreover from a have "ExtractDiffForRange parse examplePatchB 2 2 =
      TrimSpace (Join (concat (map (hunkEmitted 2 2) (allHunks [\<lparr>Hunks = [h]\<rparr>]))) [nl])"
    by (intro ExtractDiffForRange_parsed examplePatch_nonempty) simp
  ultimately have "ExtractDiffForRange parse examplePatchB 2 2 =
      TrimSpace (Join [''-old_line'', ''+new_line''] [nl])"
    by (simp only: allHunks_def FileDiff.simps list.map concat.simps append_Nil2)
  then show "ExtractDiffForRange parse examplePatchB 2 2 = ''-old_line'' @ [nl] @ ''+new_line''"
    by (simp only: exampleB_trim)
qed

theorem ExtractDiffForRange_emits_witness:
  "examplePatchB \<noteq> []
   \<and> ExtractDiffForRange (\<lambda>p. Inr [\<lparr>Hunks = [exampleHunkB]\<rparr>]) examplePatchB 2 2 =
       TrimSpace (Join (hunkEmitted 2 2 exampleHunkB) [nl])
   \<and> ExtractDiffForRange (\<lambda>p. Inr [\<lparr>Hunks = [exampleHunkB]\<rparr>]) examplePatchB 2 2 =
       ''-old_line'' @ [nl] @ ''+new_line''"
proof -
  let ?parse = "\<lambda>p::string. (Inr [\<lparr>Hunks = [exampleHunkB]\<rparr>] :: error + FileDiff list)"
  note T = ExtractDiffForRange_emits [of examplePatchB ?parse "[\<lparr>Hunks = [exampleHunkB]\<rparr>]" 2 2 exampleHunkB]
  have ne: "examplePatchB \<noteq> []"
    by (simp add: examplePatchB_def)
  have fields: "NewStartLine exampleHunkB = 1 \<and> NewLines exampleHunkB = 4
      \<and> (Hunk.Body exampleHunkB = exampleBodyB \<or> Hunk.Body exampleHunkB = exampleBodyB @ [nl])"
    by (simp add: exampleHunkB_def)
  from T ne have "ExtractDiffForRange ?parse examplePatchB 2 2 =
      TrimSpace (Join (concat (map (hunkEmitted 2 2) (allHunks [\<lparr>Hunks = [exampleHunkB]\<rparr>]))) [nl])"
    by blast
  then have 1: "ExtractDiffForRange ?parse examplePatchB 2 2 =
      TrimSpace (Join (hunkEmitted 2 2 exampleHunkB) [nl])"
    by (simp add: allHunks_def)
  from T fields have 2: "ExtractDiffForRange ?parse examplePatchB 2 2 = ''-old_line'' @ [nl] @ ''+new_line''"
    by blast
  from ne 1 2 show ?thesis by blast
qed

section \<open>Empty and unparseable patches\<close>

lemma call_returns:
  "library (withHeaders patch) = Returns r \<Longrightarrow>
     ParsePatch_call library patch = Returns (ParsePatch (\<lambda>p. r) patch)
     \<and> ExtractDiffForRange_call library patch s e = Returns (ExtractDiffForRange (\<lambda>p. r) patch s e)"
  by (simp add: ParsePatch_call_def ExtractDiffForRange_call_def ParsePatch_def ExtractDiffForRange_def
        split: sum.splits)



section \<open>Change type of the extracted functions\<close>

lemma extractFunction_set:
  "set (extractFunction file pd ml lang result fn) \<subseteq>
     set result \<union> {fn. FilePath fn = ModifiedFile.Path file \<and> ChangeType fn = changeTypeOf file}"
  by (auto simp: extractFunction_def changeTypeOf_def Let_def)

lemma foldl_extractFunction_set:
  "set (foldl (extractFunction file pd ml lang) result fns) \<subseteq>
     set result \<union> {fn. FilePath fn = ModifiedFile.Path file \<and> ChangeType fn = changeTypeOf file}"
proof (induction fns arbitrary: result)
  case Nil
  then show ?case by simp
next
  case (Cons f fs)
  have "set (foldl (extractFunction file pd ml lang) (extractFunction file pd ml lang result f) fs)
          \<subseteq> set (extractFunction file pd ml lang result f)
              \<union> {fn. FilePath fn = ModifiedFile.Path file \<and> ChangeType fn = changeTypeOf file}"
    by (rule Cons.IH)
  with extractFunction_set [of "file" pd ml lang result f] show ?case by auto
qed

lemma extractFromFile_ChangeType:
  assumes "extractFromFile e file = Inr fns" and "fn \<in> set fns"
  shows "FilePath fn = ModifiedFile.Path file \<and> ChangeType fn = changeTypeOf file"
  using assms foldl_extractFunction_set [of "file" "ParseMultiFileDiff e" _ _ "[]"]
  by (fastforce simp: extractFromFile_def split: sum.splits prod.splits)

lemma extractFile_deleted: "ModifiedFile.Status file = ''deleted'' \<Longrightarrow> extractFile e result file = result"
  by (simp add: extractFile_def)

lemma foldl_extractFile_filter:
  "foldl (extractFile e) result (filter (\<lambda>f. ModifiedFile.Status f \<noteq> ''deleted'') files) =
   foldl (extractFile e) result files"
  by (induction files arbitrary: result) (simp_all add: extractFile_deleted)

lemma extractFile_set:
  "set (extractFile e result file) \<subseteq> set result \<union> {fn. emittedFor file fn}"
  using extractFromFile_ChangeType [of e "file"]
  by (auto simp: extractFile_def emittedFor_def split: sum.splits)

lemma foldl_extractFile_set:
  "set (foldl (extractFile e) result files) \<subseteq> set result \<union> {fn. \<exists>file \<in> set files. emittedFor file fn}"
proof (induction files arbitrary: result)
  case Nil
  then show ?case by simp
next
  case (Cons f fs)
  have "set (foldl (extractFile e) (extractFile e result f) fs)
          \<subseteq> set (extractFile e result f) \<union> {fn. \<exists>file \<in> set fs. emittedFor file fn}"
    by (rule Cons.IH)
  with extractFile_set [of e result f] show ?case by auto
qed

lemma exampleA_extracted: "extractFromFile exampleExtractor exampleAddedFile = Inr [exampleExtracted]"
  by (simp add: extractFromFile_def exampleExtractor_def exampleAddedFile_def exampleA_parsed
        exampleA_diff extractFunction_def HasModifiedLineInRange_def exampleExtracted_def Let_def
        word_sle_eq)

text \<open>
  C8. \<open>ExtractModifiedFunctions\<close> always returns a list, and every record in it was
  emitted for a file of the input whose status is not \<open>deleted\<close>, with \<open>ChangeType\<close>
  \<open>added\<close> when that file's status is \<open>added\<close> and \<open>modified\<close> otherwise: the change
  type is always one of these two. Every record that \<open>extractFromFile\<close> returns for a file
  has the change type of the file's status. Files with status \<open>deleted\<close> contribute nothing:
  the result is the result for the list without them, and a list of deleted files gives the
  empty result.
\<close>

theorem ChangeType_of_emitted:
  "(\<exists>out. ExtractModifiedFunctions e files = Inr out
      \<and> (\<forall>fn \<in> set out. \<exists>file \<in> set files. emittedFor file fn)
      \<and> (\<forall>fn \<in> set out. ChangeType fn = ''added'' \<or> ChangeType fn = ''modified''))
   \<and> (extractFromFile e file = Inr fns \<longrightarrow>
        (\<forall>fn \<in> set fns. ChangeType fn = (if ModifiedFile.Status file = ''added'' then ''added'' else ''modified'')))
   \<and> ExtractModifiedFunctions e files =
       ExtractModifiedFunctions e (filter (\<lambda>f. ModifiedFile.Status f \<noteq> ''deleted'') files)
   \<and> (list_all (\<lambda>f. ModifiedFile.Status f = ''deleted'') files \<longrightarrow> ExtractModifiedFunctions e files = Inr [])"
proof (intro conjI)
  have sub: "set (foldl (extractFile e) [] files) \<subseteq> {fn. \<exists>file \<in> set files. emittedFor file fn}"
    using foldl_extractFile_set [of e "[]" files] by simp
  then have "\<forall>fn \<in> set (foldl (extractFile e) [] files). \<exists>file \<in> set files. emittedFor file fn"
    by blast
  moreover from sub have "\<forall>fn \<in> set (foldl (extractFile e) [] files).
      ChangeType fn = ''added'' \<or> ChangeType fn = ''modified''"
    by (auto simp: emittedFor_def changeTypeOf_def split: if_splits)
  ultimately show "\<exists>out. ExtractModifiedFunctions e files = Inr out
      \<and> (\<forall>fn \<in> set out. \<exists>file \<in> set files. emittedFor file fn)
      \<and> (\<forall>fn \<in> set out. ChangeType fn = ''added'' \<or> ChangeType fn = ''modified'')"
    by (simp add: ExtractModifiedFunctions_def)
next
  show "extractFromFile e file = Inr fns \<longrightarrow>
        (\<forall>fn \<in> set fns. ChangeType fn = (if ModifiedFile.Status file = ''added'' then ''added'' else ''modified''))"
    using extractFromFile_ChangeType [of e "file" fns] by (simp add: changeTypeOf_def)
next
  show "ExtractModifiedFunctions e files =
       ExtractModifiedFunctions e (filter (\<lambda>f. ModifiedFile.Status f \<noteq> ''deleted'') files)"
    by (simp add: ExtractModifiedFunctions_def foldl_extractFile_filter)
next
  have "list_all (\<lambda>f. ModifiedFile.Status f = ''deleted'') files \<Longrightarrow> foldl (extractFile e) r files = r" for r
    by (induction files arbitrary: r) (simp_all add: extractFile_deleted)
  then show "list_all (\<lambda>f. ModifiedFile.Status f = ''deleted'') files \<longrightarrow> ExtractModifiedFunctions e files = Inr []"
    by (simp add: ExtractModifiedFunctions_def)
qed

theorem ChangeType_of_emitted_witness:
  "extractFromFile exampleExtractor exampleAddedFile = Inr [exampleExtracted]
   \<and> ChangeType exampleExtracted = ''added''
   \<and> ExtractModifiedFunctions exampleExtractor [exampleDeletedFile, exampleAddedFile] =
       Inr [exampleExtracted]
   \<and> ExtractModifiedFunctions exampleExtractor [exampleDeletedFile] = Inr []"
proof -
  note T = ChangeType_of_emitted [of exampleExtractor "[exampleDeletedFile, exampleAddedFile]"
             exampleAddedFile "[exampleExtracted]"]
  note D = ChangeType_of_emitted [of exampleExtractor "[exampleDeletedFile]"
             exampleAddedFile "[exampleExtracted]"]
  have st: "ModifiedFile.Status exampleAddedFile = ''added''"
    "ModifiedFile.Status exampleDeletedFile = ''deleted''"
    by (simp_all add: exampleAddedFile_def exampleDeletedFile_def)
  from T exampleA_extracted st have 1: "ChangeType exampleExtracted = ''added''"
    by simp
  from T have "ExtractModifiedFunctions exampleExtractor [exampleDeletedFile, exampleAddedFile] =
      ExtractModifiedFunctions exampleExtractor
        (filter (\<lambda>f. ModifiedFile.Status f \<noteq> ''deleted'') [exampleDeletedFile, exampleAddedFile])"
    by blast
  then have 2: "ExtractModifiedFunctions exampleExtractor [exampleDeletedFile, exampleAddedFile] =
      Inr [exampleExtracted]"
    using exampleA_extracted
    by (simp add: st ExtractModifiedFunctions_def extractFile_def exampleExtractor_def
          exampleAddedFile_def)
  have "list_all (\<lambda>f. ModifiedFile.Status f = ''deleted'') [exampleDeletedFile]"
    by (simp add: st)
  with D have 3: "ExtractModifiedFunctions exampleExtractor [exampleDeletedFile] = Inr []"
    by blast
  from exampleA_extracted 1 2 3 show ?thesis by blast
qed

section \<open>Fingerprints\<close>

lemma hextable_hex: "k < 16 \<Longrightarrow> hexClass (hextable ! k)"
proof -
  have "list_all (\<lambda>k. hexClass (hextable ! k)) [0..<16]"
    by code_simp
  then show "k < 16 \<Longrightarrow> hexClass (hextable ! k)"
    by (simp add: list_all_iff)
qed

lemma hextable_inj: "k < 16 \<Longrightarrow> j < 16 \<Longrightarrow> hextable ! k = hextable ! j \<Longrightarrow> k = j"
proof -
  have "distinct hextable" and "length hextable = 16"
    by (simp_all add: hextable_def)
  then show "k < 16 \<Longrightarrow> j < 16 \<Longrightarrow> hextable ! k = hextable ! j \<Longrightarrow> k = j"
    by (simp add: nth_eq_iff_index_eq)
qed

lemma high_nibble: "(of_char v :: nat) div 16 < 16"
  by (rule less_mult_imp_div_less) simp

lemma EncodeToString_Nil: "EncodeToString [] = []"
  by (simp add: EncodeToString_def)

lemma EncodeToString_Cons:
  "EncodeToString (v # vs) =
     hextable ! (of_char v div 16) # hextable ! (of_char v mod 16) # EncodeToString vs"
  by (simp add: EncodeToString_def)

lemma length_EncodeToString: "length (EncodeToString src) = 2 * length src"
  by (induction src) (simp_all add: EncodeToString_Nil EncodeToString_Cons)

lemma hex_EncodeToString: "list_all hexClass (EncodeToString src)"
proof (induction src)
  case Nil
  then show ?case by (simp add: EncodeToString_Nil)
next
  case (Cons v vs)
  show ?case
    using Cons by (simp add: EncodeToString_Cons hextable_hex high_nibble)
qed

lemma take_EncodeToString: "take (2 * n) (EncodeToString src) = EncodeToString (take n src)"
proof (induction src arbitrary: n)
  case Nil
  then show ?case by (simp add: EncodeToString_Nil)
next
  case (Cons v vs)
  show ?case
  proof (cases n)
    case 0
    then show ?thesis by (simp add: EncodeToString_Nil)
  next
    case (Suc m)
    then show ?thesis by (simp add: EncodeToString_Cons Cons.IH)
  qed
qed

lemma EncodeToString_inj: "EncodeToString xs = EncodeToString ys \<Longrightarrow> xs = ys"
proof (induction xs arbitrary: ys)
  case Nil
  then show ?case
    by (cases ys) (simp_all add: EncodeToString_Nil EncodeToString_Cons)
next
  case (Cons v vs)
  then obtain w ws where ys: "ys = w # ws"
    by (cases ys) (simp_all add: EncodeToString_Nil EncodeToString_Cons)
  from Cons.prems ys have
    hi: "hextable ! (of_char v div 16) = hextable ! (of_char w div 16)" and
    lo: "hextable ! (of_char v mod 16) = hextable ! (of_char w mod 16)" and
    rest: "EncodeToString vs = EncodeToString ws"
    by (simp_all add: EncodeToString_Cons)
  have bv: "(of_char v :: nat) div 16 < 16" "(of_char w :: nat) div 16 < 16"
    by (rule high_nibble)+
  from hi bv have "(of_char v :: nat) div 16 = of_char w div 16"
    by (rule hextable_inj [rotated 2])
  moreover from lo have "(of_char v :: nat) mod 16 = of_char w mod 16"
    by (intro hextable_inj) simp_all
  ultimately have "(of_char v :: nat) = of_char w"
    by (metis div_mult_mod_eq)
  then have "v = w" by simp
  with rest Cons.IH ys show ?case by simp
qed

lemma FunctionHash_truncated:
  "FunctionHash Sum256 fn = EncodeToString (take 6 (Sum256 (hashData fn)))"
  using take_EncodeToString [of 6] by (simp add: FunctionHash_def HashLength_def Let_def)

lemma FunctionHash_eq_iff:
  "FunctionHash Sum256 a = FunctionHash Sum256 b \<longleftrightarrow>
     take 6 (Sum256 (hashData a)) = take 6 (Sum256 (hashData b))"
  using EncodeToString_inj by (auto simp: FunctionHash_truncated)

lemma differInOneField_hashData: "differInOneField a b \<Longrightarrow> hashData a \<noteq> hashData b"
  by (auto simp: differInOneField_def hashData_def)

lemma FunctionHash_short: "length (FunctionHash Sum256 fn) \<le> 12"
  by (simp add: FunctionHash_def HashLength_def)

lemma length_exampleDigest: "length (exampleDigest data) = 32"
  by (simp add: exampleDigest_def)

lemma example_hashes_differ:
  "FunctionHash exampleDigest exampleFn2 \<noteq> FunctionHash exampleDigest exampleFn1"
  by (simp add: FunctionHash_eq_iff exampleDigest_def hashData_def exampleFn1_def exampleFn2_def)

lemma example_hash_length: "length (FunctionHash exampleDigest fn) = 12"
  by (simp add: FunctionHash_truncated length_EncodeToString exampleDigest_def)

lemma example_hash_nonempty: "FunctionHash exampleDigest fn \<noteq> []"
  using example_hash_length [of fn] by auto

text \<open>
  Whatever the digest function, a fingerprint has at most twelve characters, so two file
  paths give one function the same fingerprint.
\<close>

lemma FunctionHash_collides:
  "\<exists>p p'. p \<noteq> p' \<and> FunctionHash Sum256 (fn\<lparr>FilePath := p\<rparr>) = FunctionHash Sum256 (fn\<lparr>FilePath := p'\<rparr>)"
proof -
  let ?f = "\<lambda>p. FunctionHash Sum256 (fn\<lparr>FilePath := p\<rparr>)"
  have "range ?f \<subseteq> {xs. set xs \<subseteq> UNIV \<and> length xs \<le> 12}"
    using FunctionHash_short by auto
  moreover have "finite {xs :: string. set xs \<subseteq> UNIV \<and> length xs \<le> 12}"
    by (rule finite_lists_length_le) simp
  ultimately have "finite (range ?f)"
    by (rule finite_subset)
  moreover have "infinite (UNIV :: string set)"
    by (rule infinite_UNIV_listI)
  ultimately have "\<not> inj ?f"
    using finite_imageD by blast
  then show ?thesis
    by (auto simp: inj_on_def)
qed

text \<open>
  C2, as the specification states it, fails. The separator is \<open>:\<close>, which occurs in the
  fields: the functions \<open>ambiguousA\<close> (name \<open>f\<close>, content \<open>a:b\<close>) and \<open>ambiguousB\<close>
  (name \<open>f:a\<close>, content \<open>b\<close>) have the same hashed text and so the same fingerprint under
  every digest function. And no function with 12-character results can change whenever one
  field changes: for every digest and every function two file paths collide.
\<close>

theorem FunctionHash_separator_ambiguous:
  "hashData ambiguousA = hashData ambiguousB
   \<and> (ExtractedFunction.Name ambiguousA \<noteq> ExtractedFunction.Name ambiguousB)
   \<and> (\<forall>Sum256. FunctionHash Sum256 ambiguousA = FunctionHash Sum256 ambiguousB)
   \<and> (\<forall>Sum256 fn. \<exists>p p'. p \<noteq> p'
        \<and> FunctionHash Sum256 (fn\<lparr>FilePath := p\<rparr>) = FunctionHash Sum256 (fn\<lparr>FilePath := p'\<rparr>))"
proof -
  have "hashData ambiguousA = hashData ambiguousB"
    by (simp add: hashData_def ambiguousA_def ambiguousB_def)
  moreover from this have "\<forall>Sum256. FunctionHash Sum256 ambiguousA = FunctionHash Sum256 ambiguousB"
    by (simp add: FunctionHash_def)
  moreover have "ExtractedFunction.Name ambiguousA \<noteq> ExtractedFunction.Name ambiguousB"
    by (simp add: ambiguousA_def ambiguousB_def)
  ultimately show ?thesis
    using FunctionHash_collides by blast
qed

text \<open>
  C2, amended. \<open>FunctionHash\<close> joins \<open>FilePath\<close>, \<open>Name\<close>, \<open>Content\<close> and \<open>Diff\<close> with
  the separator \<open>:\<close>, hashes the bytes with SHA-256 and keeps the first 12 characters of
  the lower-case hexadecimal encoding of the digest. The result is a function of the four
  fields alone (equal hashed texts give equal fingerprints), and with a 32-byte digest it
  has exactly 12 characters, all of \<open>[a-f0-9]\<close>. Changing exactly one of the four fields
  changes the hashed text; two fingerprints are equal exactly when the first six bytes of
  the two digests are.
\<close>

theorem FunctionHash_fingerprint:
  "FunctionHash Sum256 fn =
     take 12 (EncodeToString (Sum256 (FilePath fn @ '':'' @ ExtractedFunction.Name fn @ '':''
                                        @ ExtractedFunction.Content fn @ '':'' @ Diff fn)))
   \<and> (length (Sum256 (hashData fn)) = 32 \<longrightarrow>
        length (FunctionHash Sum256 fn) = 12 \<and> list_all hexClass (FunctionHash Sum256 fn))
   \<and> (hashData fn = hashData fn' \<longrightarrow> FunctionHash Sum256 fn = FunctionHash Sum256 fn')
   \<and> (differInOneField fn fn' \<longrightarrow> hashData fn \<noteq> hashData fn')
   \<and> (FunctionHash Sum256 fn = FunctionHash Sum256 fn' \<longleftrightarrow>
        take 6 (Sum256 (hashData fn)) = take 6 (Sum256 (hashData fn')))"
proof (intro conjI impI)
  show "FunctionHash Sum256 fn =
     take 12 (EncodeToString (Sum256 (FilePath fn @ '':'' @ ExtractedFunction.Name fn @ '':''
                                        @ ExtractedFunction.Content fn @ '':'' @ Diff fn)))"
    by (simp add: FunctionHash_def hashData_def HashLength_def Let_def)
next
  assume "length (Sum256 (hashData fn)) = 32"
  then show "length (FunctionHash Sum256 fn) = 12"
    by (simp add: FunctionHash_truncated length_EncodeToString)
next
  show "list_all hexClass (FunctionHash Sum256 fn)"
    by (simp add: FunctionHash_truncated hex_EncodeToString)
next
  assume "hashData fn = hashData fn'"
  then show "FunctionHash Sum256 fn = FunctionHash Sum256 fn'"
    by (simp add: FunctionHash_def)
next
  assume "differInOneField fn fn'"
  then show "hashData fn \<noteq> hashData fn'" by (rule differInOneField_hashData)
next
  show "FunctionHash Sum256 fn = FunctionHash Sum256 fn' \<longleftrightarrow>
        take 6 (Sum256 (hashData fn)) = take 6 (Sum256 (hashData fn'))"
    using EncodeToString_inj by (auto simp: FunctionHash_truncated)
qed

theorem FunctionHash_fingerprint_witness:
  "length (FunctionHash exampleDigest exampleFn1) = 12
   \<and> list_all hexClass (FunctionHash exampleDigest exampleFn1)
   \<and> hashData exampleFn1 \<noteq> hashData (exampleFn1\<lparr>FilePath := ''other.go''\<rparr>)
   \<and> FunctionHash exampleDigest ambiguousA = FunctionHash exampleDigest ambiguousB"
proof -
  have d: "differInOneField exampleFn1 (exampleFn1\<lparr>FilePath := ''other.go''\<rparr>)"
    by (simp add: differInOneField_def exampleFn1_def)
  have e: "hashData ambiguousA = hashData ambiguousB"
    by (simp add: hashData_def ambiguousA_def ambiguousB_def)
  from FunctionHash_fingerprint [of exampleDigest exampleFn1 "exampleFn1\<lparr>FilePath := ''other.go''\<rparr>"] d
  have "length (FunctionHash exampleDigest exampleFn1) = 12
      \<and> list_all hexClass (FunctionHash exampleDigest exampleFn1)
      \<and> hashData exampleFn1 \<noteq> hashData (exampleFn1\<lparr>FilePath := ''other.go''\<rparr>)"
    using length_exampleDigest by blast
  moreover from FunctionHash_fingerprint [of exampleDigest ambiguousA ambiguousB] e
  have "FunctionHash exampleDigest ambiguousA = FunctionHash exampleDigest ambiguousB"
    by blast
  ultimately show ?thesis by blast
qed

section \<open>Markers\<close>

lemma HashPrefix_length: "length HashPrefix = 19"
  by (simp add: HashPrefix_def)

lemma HashSuffix_length: "length HashSuffix = 4"
  by (simp add: HashSuffix_def)

lemma FormatHashMarker_length: "length (FormatHashMarker h) = length h + 23"
  by (simp add: FormatHashMarker_def HashPrefix_length HashSuffix_length)

lemma markerAt_Nil: "\<not> markerAt [] i h"
  by (simp add: markerAt_def FormatHashMarker_def HashPrefix_def)

lemma markerAt_Suc: "markerAt (c # cs) (Suc i) h = markerAt cs i h"
  by (simp add: markerAt_def)

lemma markerAt_0_decompose:
  "markerAt s 0 h \<longleftrightarrow> length h = 12 \<and> list_all hexClass h \<and> (\<exists>r. s = HashPrefix @ h @ HashSuffix @ r)"
proof
  assume m: "markerAt s 0 h"
  then have "take (length (FormatHashMarker h)) s = FormatHashMarker h"
    by (simp add: markerAt_def)
  then have "s = FormatHashMarker h @ drop (length (FormatHashMarker h)) s"
    by (metis append_take_drop_id)
  then have "\<exists>r. s = HashPrefix @ h @ HashSuffix @ r"
    by (auto simp: FormatHashMarker_def)
  with m show "length h = 12 \<and> list_all hexClass h \<and> (\<exists>r. s = HashPrefix @ h @ HashSuffix @ r)"
    by (simp add: markerAt_def)
next
  assume "length h = 12 \<and> list_all hexClass h \<and> (\<exists>r. s = HashPrefix @ h @ HashSuffix @ r)"
  then show "markerAt s 0 h"
    by (auto simp: markerAt_def FormatHashMarker_def)
qed

lemma matchHere_marker:
  assumes "markerAt s 0 h"
  shows "matchHere s = [FormatHashMarker h, h]"
proof -
  from assms obtain r where s: "s = HashPrefix @ h @ HashSuffix @ r"
    and h: "length h = 12" "list_all hexClass h"
    by (auto simp: markerAt_0_decompose)
  show ?thesis
    by (simp add: matchHere_def s h Let_def FormatHashMarker_def)
qed

lemma matchHere_cases:
  "matchHere s = [] \<or> (\<exists>h. markerAt s 0 h \<and> matchHere s = [FormatHashMarker h, h])"
proof (cases "matchHere s = []")
  case True
  then show ?thesis by simp
next
  case False
  let ?g = "take 12 (drop (length HashPrefix) s)"
  from False have c: "prefix HashPrefix s" "length ?g = 12" "list_all hexClass ?g"
      "prefix HashSuffix (drop (length HashPrefix + 12) s)"
    by (auto simp: matchHere_def Let_def split: if_splits)
  from c(1) obtain r where s: "s = HashPrefix @ r"
    by (auto elim: prefixE)
  from c(4) obtain r' where r': "drop 12 r = HashSuffix @ r'"
    by (auto simp: s elim: prefixE)
  have "r = take 12 r @ drop 12 r" by simp
  with r' s have "s = HashPrefix @ ?g @ HashSuffix @ r'"
    by (simp add: s)
  with c(2,3) have "markerAt s 0 ?g"
    by (subst markerAt_0_decompose) blast
  then show ?thesis
    using matchHere_marker by blast
qed

lemma FindStringSubmatch_none:
  "(\<And>i h. \<not> markerAt s i h) \<Longrightarrow> FindStringSubmatch s = []"
proof (induction s)
  case Nil
  then show ?case using matchHere_cases [of "[]"] by auto
next
  case (Cons c cs)
  from Cons.prems have "matchHere (c # cs) = []"
    using matchHere_cases [of "c # cs"] by auto
  moreover have "FindStringSubmatch cs = []"
    using Cons.prems by (intro Cons.IH) (metis markerAt_Suc)
  ultimately show ?case by simp
qed

lemma FindStringSubmatch_first:
  "markerAt s i h \<Longrightarrow> (\<And>j h'. j < i \<Longrightarrow> \<not> markerAt s j h') \<Longrightarrow>
     FindStringSubmatch s = [FormatHashMarker h, h]"
proof (induction s arbitrary: i)
  case Nil
  then show ?case by (simp add: markerAt_Nil)
next
  case (Cons c cs)
  show ?case
  proof (cases i)
    case 0
    with Cons.prems(1) show ?thesis by (simp add: matchHere_marker)
  next
    case (Suc k)
    then have "matchHere (c # cs) = []"
      using matchHere_cases [of "c # cs"] Cons.prems(2) [of 0] by auto
    moreover have "FindStringSubmatch cs = [FormatHashMarker h, h]"
    proof (rule Cons.IH [of k])
      show "markerAt cs k h" using Cons.prems(1) Suc by (simp add: markerAt_Suc)
    next
      fix j h' assume "j < k"
      then show "\<not> markerAt cs j h'"
        using Cons.prems(2) [of "Suc j" h'] Suc by (simp add: markerAt_Suc)
    qed
    ultimately show ?thesis by simp
  qed
qed

lemma FindStringSubmatch_cases:
  "FindStringSubmatch s = [] \<or> (\<exists>i h. markerAt s i h \<and> FindStringSubmatch s = [FormatHashMarker h, h])"
proof (induction s)
  case Nil
  then show ?case using matchHere_cases [of "[]"] by (auto simp: markerAt_Nil)
next
  case (Cons c cs)
  show ?case
  proof (cases "matchHere (c # cs) = []")
    case True
    show ?thesis
    proof (cases "FindStringSubmatch cs = []")
      case True
      with \<open>matchHere (c # cs) = []\<close> show ?thesis by simp
    next
      case False
      with Cons.IH obtain i h where "markerAt cs i h" "FindStringSubmatch cs = [FormatHashMarker h, h]"
        by blast
      then have "markerAt (c # cs) (Suc i) h \<and> FindStringSubmatch (c # cs) = [FormatHashMarker h, h]"
        using \<open>matchHere (c # cs) = []\<close> by (simp add: markerAt_Suc)
      then show ?thesis by blast
    qed
  next
    case False
    then obtain h where "markerAt (c # cs) 0 h" "matchHere (c # cs) = [FormatHashMarker h, h]"
      using matchHere_cases [of "c # cs"] by auto
    then show ?thesis by auto
  qed
qed

lemma ExtractHash_none: "(\<And>i h. \<not> markerAt s i h) \<Longrightarrow> ExtractHash s = []"
  by (simp add: ExtractHash_def FindStringSubmatch_none)

lemma ExtractHash_first:
  "markerAt s i h \<Longrightarrow> (\<And>j h'. j < i \<Longrightarrow> \<not> markerAt s j h') \<Longrightarrow> ExtractHash s = h"
  by (simp add: ExtractHash_def FindStringSubmatch_first)

lemma ExtractHash_cases:
  "ExtractHash s = [] \<or> (\<exists>i. markerAt s i (ExtractHash s))"
  using FindStringSubmatch_cases [of s] by (auto simp: ExtractHash_def)

lemma markerAt_FormatHashMarker:
  "length h = 12 \<Longrightarrow> list_all hexClass h \<Longrightarrow> markerAt (FormatHashMarker h @ r) 0 h"
  by (simp add: markerAt_def)

text \<open>
  C6. For every string \<open>h\<close> of 12 characters of \<open>[a-f0-9]\<close>, extracting the hash from
  the marker of \<open>h\<close> gives \<open>h\<close> back.
\<close>

theorem ExtractHash_FormatHashMarker:
  "length h = 12 \<and> list_all hexClass h \<longrightarrow> ExtractHash (FormatHashMarker h) = h"
  using ExtractHash_first [of "FormatHashMarker h" 0 h] markerAt_FormatHashMarker [of h "[]"]
  by simp

theorem ExtractHash_FormatHashMarker_witness:
  "ExtractHash (FormatHashMarker ''abc123def456'') = ''abc123def456''"
  using ExtractHash_FormatHashMarker [of "''abc123def456''"]
  by (simp add: hexClass_def)

lemma hexClass_chars:
  "hexClass c \<Longrightarrow> c \<noteq> CHR ''<'' \<and> c \<noteq> CHR '' '' \<and> c \<noteq> CHR '':'' \<and> c \<noteq> CHR ''n''"
  by (auto simp: hexClass_def)

lemma hex_no_lt: "list_all hexClass h \<Longrightarrow> CHR ''<'' \<notin> set h"
  by (auto simp: list_all_iff dest: hexClass_chars)

lemma matchHere_needs_lt: "matchHere s \<noteq> [] \<Longrightarrow> \<exists>r. s = CHR ''<'' # r"
  by (auto simp: matchHere_def Let_def HashPrefix_def prefix_def split: if_splits)

lemma FindStringSubmatch_no_lt: "CHR ''<'' \<notin> set s \<Longrightarrow> FindStringSubmatch s = []"
proof (induction s)
  case Nil
  then show ?case using matchHere_needs_lt [of "[]"] by auto
next
  case (Cons c cs)
  then have "matchHere (c # cs) = []"
    using matchHere_needs_lt [of "c # cs"] by auto
  with Cons show ?case by simp
qed

lemma FindStringSubmatch_skip:
  "CHR ''<'' \<notin> set pre \<Longrightarrow> FindStringSubmatch (pre @ s) = FindStringSubmatch s"
proof (induction pre)
  case Nil
  then show ?case by simp
next
  case (Cons c cs)
  then have "matchHere (c # cs @ s) = []"
    using matchHere_needs_lt [of "c # cs @ s"] by auto
  with Cons show ?case by simp
qed

lemma markerAt_nth: "markerAt s i h \<Longrightarrow> i < length s \<and> s ! i = CHR ''<''"
proof (induction s arbitrary: i)
  case Nil
  then show ?case by (simp add: markerAt_Nil)
next
  case (Cons c cs)
  show ?case
  proof (cases i)
    case 0
    with Cons.prems show ?thesis
      by (auto simp: markerAt_0_decompose HashPrefix_def)
  next
    case (Suc k)
    with Cons show ?thesis by (simp add: markerAt_Suc)
  qed
qed

lemma markerAt_no_lt: "CHR ''<'' \<notin> set s \<Longrightarrow> \<not> markerAt s i h"
  using markerAt_nth [of s i h] by (metis nth_mem)

lemma markerAt_before: "CHR ''<'' \<notin> set pre \<Longrightarrow> j < length pre \<Longrightarrow> \<not> markerAt (pre @ s) j h"
  using markerAt_nth [of "pre @ s" j h] by (metis nth_append nth_mem)

lemma markerAt_append: "markerAt (pre @ s) (length pre + i) h = markerAt s i h"
  by (simp add: markerAt_def)

lemma FindStringSubmatch_failed_head:
  assumes "matchHere (c # rest) = []" and "CHR ''<'' \<notin> set rest"
  shows "FindStringSubmatch (c # rest) = []"
  using assms by (simp add: FindStringSubmatch_no_lt)

lemma wrong_length_no_match:
  assumes "list_all hexClass g" and "length g \<noteq> 12"
  shows "matchHere (FormatHashMarker g @ post) = []"
proof (rule ccontr)
  assume "matchHere (FormatHashMarker g @ post) \<noteq> []"
  then obtain h where "markerAt (FormatHashMarker g @ post) 0 h"
    using matchHere_cases by blast
  then obtain r where eq: "FormatHashMarker g @ post = HashPrefix @ h @ HashSuffix @ r"
    and h: "length h = 12" "list_all hexClass h"
    by (auto simp: markerAt_0_decompose)
  from eq have e: "g @ HashSuffix @ post = h @ HashSuffix @ r"
    by (simp add: FormatHashMarker_def)
  show False
  proof (cases "length g < 12")
    case True
    from e have "(g @ HashSuffix @ post) ! length g = (h @ HashSuffix @ r) ! length g" by simp
    with True h(1) have "h ! length g = CHR '' ''"
      by (simp add: nth_append HashSuffix_def)
    moreover from True h have "hexClass (h ! length g)"
      by (simp add: list_all_length)
    ultimately show False using hexClass_chars by metis
  next
    case False
    with assms(2) have gt: "12 < length g" by simp
    from e have "(g @ HashSuffix @ post) ! 12 = (h @ HashSuffix @ r) ! 12" by simp
    with gt h(1) have "g ! 12 = CHR '' ''"
      by (simp add: nth_append HashSuffix_def)
    moreover from gt assms(1) have "hexClass (g ! 12)"
      by (simp add: list_all_length)
    ultimately show False using hexClass_chars by metis
  qed
qed

lemma wrong_length_not_found:
  assumes "list_all hexClass g" and "length g \<noteq> 12"
    and "CHR ''<'' \<notin> set pre" and "CHR ''<'' \<notin> set post"
  shows "ExtractHash (pre @ FormatHashMarker g @ post) = []"
proof -
  have "FormatHashMarker g @ post = CHR ''<'' # (tl HashPrefix @ g @ HashSuffix @ post)"
    by (simp add: FormatHashMarker_def HashPrefix_def)
  moreover have "CHR ''<'' \<notin> set (tl HashPrefix @ g @ HashSuffix @ post)"
    using assms(1,4) hex_no_lt [of g] by (simp add: HashPrefix_def HashSuffix_def)
  ultimately have "FindStringSubmatch (FormatHashMarker g @ post) = []"
    using wrong_length_no_match [OF assms(1,2), of post] FindStringSubmatch_failed_head
    by metis
  with assms(3) show ?thesis
    by (simp add: ExtractHash_def FindStringSubmatch_skip)
qed

lemma wrong_prefix_no_match:
  assumes "length h = 12" and "list_all hexClass h"
    and "p \<noteq> HashPrefix" and "length p \<le> length HashPrefix"
  shows "matchHere (p @ h @ rest) = []"
proof (rule ccontr)
  assume "matchHere (p @ h @ rest) \<noteq> []"
  then have pre: "prefix HashPrefix (p @ h @ rest)"
    by (auto simp: matchHere_def Let_def split: if_splits)
  then obtain r where eq: "p @ h @ rest = HashPrefix @ r"
    by (auto elim: prefixE)
  have lt: "length p < 19"
  proof (rule ccontr)
    assume "\<not> length p < 19"
    with assms(4) have "length p = length HashPrefix" by (simp add: HashPrefix_length)
    with eq have "p = HashPrefix" by simp
    with assms(3) show False by simp
  qed
  from eq have n7: "(p @ h @ rest) ! 7 = CHR ''n''" and n18: "(p @ h @ rest) ! 18 = CHR '':''"
    by (simp_all add: HashPrefix_def)
  show False
  proof (cases "length p \<le> 7")
    case True
    then have "(p @ h @ rest) ! 7 = (h @ rest) ! (7 - length p)"
      by (simp add: nth_append)
    also have "\<dots> = h ! (7 - length p)"
    proof -
      have "7 - length p < length h" using assms(1) by arith
      then show ?thesis by (simp only: nth_append if_True)
    qed
    finally have "h ! (7 - length p) = CHR ''n''"
      using n7 by simp
    moreover from True assms have "hexClass (h ! (7 - length p))"
      by (simp add: list_all_length)
    ultimately show False using hexClass_chars by metis
  next
    case False
    with lt have "(p @ h @ rest) ! 18 = (h @ rest) ! (18 - length p)"
      by (simp add: nth_append)
    also have "\<dots> = h ! (18 - length p)"
    proof -
      have "18 - length p < length h" using assms(1) False by arith
      then show ?thesis by (simp only: nth_append if_True)
    qed
    finally have "h ! (18 - length p) = CHR '':''"
      using n18 by simp
    moreover from False lt assms have "hexClass (h ! (18 - length p))"
      by (simp add: list_all_length)
    ultimately show False using hexClass_chars by metis
  qed
qed

lemma wrong_prefix_not_found:
  assumes "length h = 12" and "list_all hexClass h"
    and "p \<noteq> HashPrefix" and "length p \<le> length HashPrefix"
    and "CHR ''<'' \<notin> set pre" and "CHR ''<'' \<notin> set (tl p)" and "CHR ''<'' \<notin> set post"
  shows "ExtractHash (pre @ p @ h @ HashSuffix @ post) = []"
proof -
  have "FindStringSubmatch (p @ h @ HashSuffix @ post) = []"
  proof (cases p)
    case Nil
    then show ?thesis
      using assms(2,7) hex_no_lt [of h]
      by (intro FindStringSubmatch_no_lt) (simp add: HashSuffix_def)
  next
    case (Cons c q)
    have "matchHere (c # q @ h @ HashSuffix @ post) = []"
      using wrong_prefix_no_match [OF assms(1-4), of "HashSuffix @ post"] Cons by simp
    moreover have "CHR ''<'' \<notin> set (q @ h @ HashSuffix @ post)"
      using assms(2,6,7) hex_no_lt [of h] Cons by (simp add: HashSuffix_def)
    ultimately show ?thesis
      using Cons by (simp add: FindStringSubmatch_no_lt)
  qed
  with assms(5) show ?thesis
    by (simp add: ExtractHash_def FindStringSubmatch_skip)
qed

text \<open>
  C7. \<open>ExtractHash\<close> is total and returns, for every text: the empty string when no
  marker occurs in the text; the group of the first marker when one occurs; and never
  anything but the empty string or 12 characters of \<open>[a-f0-9]\<close> that stand in a marker
  of the text. In particular the result is empty for a marker whose hexadecimal part has
  fewer than 12 characters (or more), and for a 12-character hash behind a different prefix
  (no longer than the right one), in a text that has no other \<open><\<close>.
\<close>

theorem ExtractHash_not_found:
  "((\<forall>i h. \<not> markerAt body i h) \<longrightarrow> ExtractHash body = [])
   \<and> (markerAt body i h \<and> (\<forall>j<i. \<forall>h'. \<not> markerAt body j h') \<longrightarrow> ExtractHash body = h)
   \<and> (ExtractHash body = []
        \<or> (length (ExtractHash body) = 12 \<and> list_all hexClass (ExtractHash body)
            \<and> (\<exists>k. markerAt body k (ExtractHash body))))
   \<and> (list_all hexClass g \<and> length g \<noteq> 12 \<and> CHR ''<'' \<notin> set pre \<and> CHR ''<'' \<notin> set post \<longrightarrow>
        ExtractHash (pre @ FormatHashMarker g @ post) = [])
   \<and> (length h = 12 \<and> list_all hexClass h \<and> p \<noteq> HashPrefix \<and> length p \<le> length HashPrefix
        \<and> CHR ''<'' \<notin> set pre \<and> CHR ''<'' \<notin> set (tl p) \<and> CHR ''<'' \<notin> set post \<longrightarrow>
        ExtractHash (pre @ p @ h @ HashSuffix @ post) = [])"
proof (intro conjI impI)
  assume "\<forall>i h. \<not> markerAt body i h"
  then show "ExtractHash body = []" by (simp add: ExtractHash_none)
next
  assume "markerAt body i h \<and> (\<forall>j<i. \<forall>h'. \<not> markerAt body j h')"
  then show "ExtractHash body = h" using ExtractHash_first [of body i h] by blast
next
  show "ExtractHash body = []
        \<or> (length (ExtractHash body) = 12 \<and> list_all hexClass (ExtractHash body)
            \<and> (\<exists>k. markerAt body k (ExtractHash body)))"
    using ExtractHash_cases [of body] by (auto simp: markerAt_def)
next
  assume "list_all hexClass g \<and> length g \<noteq> 12 \<and> CHR ''<'' \<notin> set pre \<and> CHR ''<'' \<notin> set post"
  then show "ExtractHash (pre @ FormatHashMarker g @ post) = []"
    by (intro wrong_length_not_found) simp_all
next
  assume "length h = 12 \<and> list_all hexClass h \<and> p \<noteq> HashPrefix \<and> length p \<le> length HashPrefix
        \<and> CHR ''<'' \<notin> set pre \<and> CHR ''<'' \<notin> set (tl p) \<and> CHR ''<'' \<notin> set post"
  then show "ExtractHash (pre @ p @ h @ HashSuffix @ post) = []"
    by (intro wrong_prefix_not_found) simp_all
qed

theorem ExtractHash_not_found_witness:
  "ExtractHash ''Just a regular comment'' = []
   \<and> ExtractHash (''Comment '' @ FormatHashMarker ''123456789abc'' @ '' more text'') = ''123456789abc''
   \<and> ExtractHash (FormatHashMarker ''abc123'') = []
   \<and> ExtractHash (''<!-- other:fn:'' @ ''abc123def456'' @ HashSuffix) = []"
proof -
  have a: "\<forall>i h. \<not> markerAt ''Just a regular comment'' i h"
    by (intro allI markerAt_no_lt) simp
  have b: "markerAt (''Comment '' @ FormatHashMarker ''123456789abc'' @ '' more text'') 8 ''123456789abc''
      \<and> (\<forall>j<8. \<forall>h'. \<not> markerAt (''Comment '' @ FormatHashMarker ''123456789abc'' @ '' more text'') j h')"
  proof (intro conjI allI impI)
    show "markerAt (''Comment '' @ FormatHashMarker ''123456789abc'' @ '' more text'') 8 ''123456789abc''"
    proof -
      have len: "(8::nat) = length ''Comment '' + 0" by simp
      show ?thesis
        by (subst len, subst markerAt_append) (simp add: markerAt_FormatHashMarker hexClass_def)
    qed
  next
    fix j h' assume "j < (8::nat)"
    then show "\<not> markerAt (''Comment '' @ FormatHashMarker ''123456789abc'' @ '' more text'') j h'"
      by (intro markerAt_before) simp_all
  qed
  have c: "list_all hexClass ''abc123'' \<and> length ''abc123'' \<noteq> 12
      \<and> CHR ''<'' \<notin> set [] \<and> CHR ''<'' \<notin> set []"
    by (simp add: hexClass_def)
  have d: "length ''abc123def456'' = 12 \<and> list_all hexClass ''abc123def456''
      \<and> ''<!-- other:fn:'' \<noteq> HashPrefix \<and> length ''<!-- other:fn:'' \<le> length HashPrefix
      \<and> CHR ''<'' \<notin> set [] \<and> CHR ''<'' \<notin> set (tl ''<!-- other:fn:'') \<and> CHR ''<'' \<notin> set []"
    by (simp add: hexClass_def HashPrefix_def)
  from ExtractHash_not_found [of "''Just a regular comment''" 0 "[]" "[]" "[]" "[]" "[]"] a
  have 1: "ExtractHash ''Just a regular comment'' = []" by blast
  from ExtractHash_not_found [of "''Comment '' @ FormatHashMarker ''123456789abc'' @ '' more text''"
         8 "''123456789abc''" "[]" "[]" "[]" "[]"] b
  have 2: "ExtractHash (''Comment '' @ FormatHashMarker ''123456789abc'' @ '' more text'') = ''123456789abc''"
    by blast
  from ExtractHash_not_found [of "[]" 0 "[]" "''abc123''" "[]" "[]" "[]"] c
  have 3: "ExtractHash ([] @ FormatHashMarker ''abc123'' @ []) = []" by blast
  from ExtractHash_not_found [of "[]" 0 "''abc123def456''" "[]" "[]" "[]" "''<!-- other:fn:''"] d
  have 4: "ExtractHash ([] @ ''<!-- other:fn:'' @ ''abc123def456'' @ HashSuffix @ []) = []" by blast
  from 1 2 3 4 show ?thesis by simp
qed

section \<open>Review memory\<close>

lemma loadComment_reviewed:
  "reviewed (loadComment t c) = (if Hash c \<noteq> [] then (reviewed t)(Hash c \<mapsto> True) else reviewed t)"
  by (simp add: loadComment_def)

lemma LoadFromComments_reviewed:
  "reviewed (LoadFromComments t comments) h =
     (if h \<in> reviewedSet comments then Some True else reviewed t h)"
  unfolding LoadFromComments_def
proof (induction comments arbitrary: t)
  case Nil
  then show ?case by (simp add: reviewedSet_def)
next
  case (Cons c cs)
  show ?case
    by (auto simp: Cons.IH loadComment_reviewed reviewedSet_def)
qed

lemma LoadFromComments_dom:
  "dom (reviewed (LoadFromComments t comments)) = dom (reviewed t) \<union> reviewedSet comments"
  by (auto simp: LoadFromComments_reviewed dom_def split: if_splits)

lemma finite_reviewedSet: "finite (reviewedSet comments)"
  by (simp add: reviewedSet_def)

lemma IsReviewed_loaded:
  "IsReviewed Sum256 (LoadFromComments NewTracker comments) fn \<longleftrightarrow>
     FunctionHash Sum256 fn \<in> reviewedSet comments"
  by (simp add: IsReviewed_def LoadFromComments_reviewed NewTracker_def)

lemma FilterUnreviewed_foldl:
  "foldl (\<lambda>result fn. if \<not> IsReviewed Sum256 t fn then result @ [fn] else result) acc functions =
     acc @ filter (\<lambda>fn. \<not> IsReviewed Sum256 t fn) functions"
  by (induction "functions" arbitrary: acc) simp_all

lemma FilterUnreviewed_filter:
  "FilterUnreviewed Sum256 t functions = filter (\<lambda>fn. \<not> IsReviewed Sum256 t fn) functions"
  by (simp add: FilterUnreviewed_def FilterUnreviewed_foldl)

lemma reviewedCommentsOf_foldl:
  "foldl (\<lambda>reviewedComments c.
              reviewedComments @
                [\<lparr>Path = ExistingComment.Path c, Line = ExistingComment.Line c,
                   Hash = ExtractHash (ExistingComment.Body c), Body = ExistingComment.Body c\<rparr>])
       acc cs =
   acc @ map (\<lambda>c. \<lparr>Path = ExistingComment.Path c, Line = ExistingComment.Line c,
                   Hash = ExtractHash (ExistingComment.Body c), Body = ExistingComment.Body c\<rparr>) cs"
  by (induction cs arbitrary: acc) simp_all

lemma reviewedSet_reviewedCommentsOf:
  "reviewedSet (reviewedCommentsOf existing) =
     (\<lambda>c. ExtractHash (ExistingComment.Body c)) ` {c \<in> set existing. ExtractHash (ExistingComment.Body c) \<noteq> []}"
  by (force simp: reviewedSet_def reviewedCommentsOf_def reviewedCommentsOf_foldl image_iff)

lemma reviewedSet_Nil: "reviewedSet [] = {}"
  by (simp add: reviewedSet_def)

lemma reviewedSet_Cons:
  "reviewedSet (c # cs) = (if Hash c \<noteq> [] then insert (Hash c) (reviewedSet cs) else reviewedSet cs)"
  by (auto simp: reviewedSet_def)

lemma example_body_hash:
  "ExtractHash (''Some review comment '' @ FormatHashMarker ''abc123def456'') = ''abc123def456''"
proof -
  have "FindStringSubmatch (''Some review comment '' @ FormatHashMarker ''abc123def456'') =
      FindStringSubmatch (FormatHashMarker ''abc123def456'')"
    by (rule FindStringSubmatch_skip) simp
  moreover have "markerAt (FormatHashMarker ''abc123def456'') 0 ''abc123def456''"
    using markerAt_FormatHashMarker [of "''abc123def456''" "[]"] by (simp add: hexClass_def)
  then have "FindStringSubmatch (FormatHashMarker ''abc123def456'') =
      [FormatHashMarker ''abc123def456'', ''abc123def456'']"
    by (rule FindStringSubmatch_first) simp
  ultimately show ?thesis by (simp add: ExtractHash_def)
qed

lemma example_body_no_hash: "ExtractHash ''Just a regular comment'' = []"
  by (rule ExtractHash_none, rule markerAt_no_lt) simp

text \<open>
  C5, as the specification states it, fails: the result need not be a strict subset. With
  no comment loaded nothing has been reviewed and \<open>FilterUnreviewed\<close> returns its input
  unchanged, whatever the digest function.
\<close>

theorem FilterUnreviewed_not_strict:
  "(\<forall>Sum256. FilterUnreviewed Sum256 (LoadFromComments NewTracker []) [exampleFn1] = [exampleFn1])
   \<and> \<not> (\<forall>Sum256 comments fns.
          set (FilterUnreviewed Sum256 (LoadFromComments NewTracker comments) fns) \<subset> set fns)"
proof -
  have a: "FilterUnreviewed Sum256 (LoadFromComments NewTracker []) [exampleFn1] = [exampleFn1]"
    for Sum256
    by (simp add: FilterUnreviewed_filter IsReviewed_loaded reviewedSet_Nil)
  then have "\<not> set (FilterUnreviewed exampleDigest (LoadFromComments NewTracker []) [exampleFn1])
               \<subset> set [exampleFn1]"
    by simp
  with a show ?thesis by blast
qed

text \<open>
  C5, amended. For every list of functions and every tracker that \<open>LoadFromComments\<close>
  filled from a list of comments, \<open>FilterUnreviewed\<close> returns the functions whose
  fingerprint is not in the reviewed set of the comments, that is the functions for which
  \<open>IsReviewed\<close> is false, in the order of the input: a sub-list of the input, equal to it
  when none of its functions has been reviewed.
\<close>

theorem FilterUnreviewed_keeps_unreviewed:
  "FilterUnreviewed Sum256 (LoadFromComments NewTracker comments) functions =
     filter (\<lambda>fn. FunctionHash Sum256 fn \<notin> reviewedSet comments) functions
   \<and> FilterUnreviewed Sum256 (LoadFromComments NewTracker comments) functions =
     filter (\<lambda>fn. \<not> IsReviewed Sum256 (LoadFromComments NewTracker comments) fn) functions
   \<and> subseq (FilterUnreviewed Sum256 (LoadFromComments NewTracker comments) functions) functions
   \<and> set (FilterUnreviewed Sum256 (LoadFromComments NewTracker comments) functions) \<subseteq> set functions"
  by (simp add: FilterUnreviewed_filter IsReviewed_loaded)

theorem FilterUnreviewed_keeps_unreviewed_witness:
  "FilterUnreviewed exampleDigest (LoadFromComments NewTracker exampleReviewed) [exampleFn1, exampleFn2]
     = [exampleFn2]"
proof -
  have 1: "FunctionHash exampleDigest exampleFn1 \<in> reviewedSet exampleReviewed"
    by (simp add: exampleReviewed_def reviewedSet_Cons example_hash_nonempty)
  have "FunctionHash exampleDigest exampleFn2 \<noteq> ''not a hash''"
    using example_hash_length [of exampleFn2] by auto
  then have 2: "FunctionHash exampleDigest exampleFn2 \<notin> reviewedSet exampleReviewed"
    using example_hashes_differ
    by (simp add: exampleReviewed_def reviewedSet_Cons reviewedSet_Nil)
  from FilterUnreviewed_keeps_unreviewed [of exampleDigest exampleReviewed "[exampleFn1, exampleFn2]"]
  have "FilterUnreviewed exampleDigest (LoadFromComments NewTracker exampleReviewed) [exampleFn1, exampleFn2]
     = filter (\<lambda>fn. FunctionHash exampleDigest fn \<notin> reviewedSet exampleReviewed) [exampleFn1, exampleFn2]"
    by blast
  with 1 2 show ?thesis by simp
qed

text \<open>
  C10. \<open>LoadFromComments\<close> adds to the reviewed set exactly the non-empty \<open>Hash\<close> values
  of the comments: on a new tracker the keys are these values and \<open>ReviewedCount\<close> is
  their number, every non-empty \<open>Hash\<close> is set to true whatever its form, and on any
  tracker the keys are the old keys and these values. The caller fills \<open>Hash\<close> with
  \<open>ExtractHash\<close> of the comment body, so the tracker it builds holds the hashes of the
  bodies that carry a marker.
\<close>

theorem LoadFromComments_no_validation:
  "dom (reviewed (LoadFromComments NewTracker comments)) = reviewedSet comments
   \<and> ReviewedCount (LoadFromComments NewTracker comments) = card (reviewedSet comments)
   \<and> (c \<in> set comments \<and> Hash c \<noteq> [] \<longrightarrow>
        reviewed (LoadFromComments t comments) (Hash c) = Some True)
   \<and> dom (reviewed (LoadFromComments t comments)) = dom (reviewed t) \<union> reviewedSet comments
   \<and> dom (reviewed (trackerOfComments existing)) =
       (\<lambda>c. ExtractHash (ExistingComment.Body c)) `
         {c \<in> set existing. ExtractHash (ExistingComment.Body c) \<noteq> []}"
  by (auto simp: LoadFromComments_dom ReviewedCount_def NewTracker_def LoadFromComments_reviewed
        trackerOfComments_def reviewedSet_reviewedCommentsOf)
     (auto simp: reviewedSet_def)

theorem LoadFromComments_no_validation_witness:
  "dom (reviewed (LoadFromComments NewTracker exampleReviewed)) =
     {FunctionHash exampleDigest exampleFn1, ''not a hash''}
   \<and> ReviewedCount (LoadFromComments NewTracker exampleReviewed) = 2
   \<and> reviewed (LoadFromComments NewTracker exampleReviewed) ''not a hash'' = Some True
   \<and> dom (reviewed (trackerOfComments exampleExisting)) = {''abc123def456''}"
proof -
  let ?c = "\<lparr>Path = ''main.go'', Line = 20, Hash = ''not a hash'', Body = ''Review 2''\<rparr>"
  note T = LoadFromComments_no_validation [of exampleReviewed ?c NewTracker exampleExisting]
  have s: "reviewedSet exampleReviewed = {FunctionHash exampleDigest exampleFn1, ''not a hash''}"
    by (simp add: exampleReviewed_def reviewedSet_Cons reviewedSet_Nil example_hash_nonempty)
  have "FunctionHash exampleDigest exampleFn1 \<noteq> ''not a hash''"
    using example_hash_length [of exampleFn1] by auto
  then have c: "card (reviewedSet exampleReviewed) = 2"
    by (simp add: s)
  have m: "?c \<in> set exampleReviewed \<and> Hash ?c \<noteq> []"
    by (simp add: exampleReviewed_def)
  from T m have 3: "reviewed (LoadFromComments NewTracker exampleReviewed) (Hash ?c) = Some True"
    by blast
  have "{c \<in> set exampleExisting. ExtractHash (ExistingComment.Body c) \<noteq> []} =
      {\<lparr>ExistingComment.Path = ''main.go'', Line = 10,
         Body = ''Some review comment '' @ FormatHashMarker ''abc123def456''\<rparr>}"
    using example_body_hash example_body_no_hash by (auto simp: exampleExisting_def)
  with T have 4: "dom (reviewed (trackerOfComments exampleExisting)) = {''abc123def456''}"
    using example_body_hash by simp
  from T s c 3 4 show ?thesis by simp
qed

end
